theory Spec2Isabelle
  imports Main
begin

section \<open>JSON values as the crawler sees them\<close>

text \<open>
  The crawler scripts work on values produced by \<^verbatim>\<open>JSON.parse\<close>. An object is the list
  of its own properties in enumeration order (the order of \<^verbatim>\<open>Object.values\<close>), with
  distinct keys; a number is its value (the identifiers and counters of this API are
  integers). A property read yields \<open>None\<close> where JavaScript yields \<^verbatim>\<open>undefined\<close>.
\<close>

datatype json =
    JNull
  | JBool bool
  | JNum int
  | JStr string
  | JArr "json list"
  | JObj "(string \<times> json) list"

text \<open>\<^verbatim>\<open>x?.k\<close>: a read through optional chaining. Only objects carry the keys the
  scripts read (\<^verbatim>\<open>id, uuid, identifier, escoIdentifier, uri, items, results, hits, data\<close>);
  on \<^verbatim>\<open>null\<close>, \<^verbatim>\<open>undefined\<close>, primitives and arrays the read is \<^verbatim>\<open>undefined\<close>.\<close>

fun getProp :: "json option \<Rightarrow> string \<Rightarrow> json option" where
  "getProp (Some (JObj kvs)) k = map_of kvs k"
| "getProp _ k = None"

text \<open>\<^verbatim>\<open>a ?? b\<close> with a right operand that is never \<^verbatim>\<open>undefined\<close>.\<close>

fun coalesce :: "json option \<Rightarrow> json \<Rightarrow> json" where
  "coalesce None b = b"
| "coalesce (Some JNull) b = b"
| "coalesce (Some v) b = v"

text \<open>\<^verbatim>\<open>!v\<close>: the falsy JSON values.\<close>

fun falsy :: "json \<Rightarrow> bool" where
  "falsy JNull = True"
| "falsy (JBool b) = (\<not> b)"
| "falsy (JNum n) = (n = 0)"
| "falsy (JStr s) = (s = [])"
| "falsy _ = False"

fun isArray :: "json \<Rightarrow> bool" where
  "isArray (JArr xs) = True"
| "isArray _ = False"

text \<open>\<^verbatim>\<open>typeof v === "object"\<close> holds for \<^verbatim>\<open>null\<close>, arrays and objects.\<close>

fun typeofObject :: "json \<Rightarrow> bool" where
  "typeofObject JNull = True"
| "typeofObject (JArr xs) = True"
| "typeofObject (JObj kvs) = True"
| "typeofObject _ = False"

fun elems :: "json \<Rightarrow> json list" where
  "elems (JArr xs) = xs"
| "elems _ = []"

fun objectValues :: "json \<Rightarrow> json list" where
  "objectValues (JObj kvs) = map snd kvs"
| "objectValues (JArr xs) = xs"
| "objectValues _ = []"

section \<open>Bulk fetcher: identifiers and response shapes (00save2.js)\<close>

text \<open>\<^verbatim>\<open>getItemId\<close>, line 214:
  \<^verbatim>\<open>it?.id ?? it?.uuid ?? it?.identifier ?? it?.escoIdentifier ?? it?.uri ?? null\<close>.\<close>

definition getItemId :: "json \<Rightarrow> json" where
  "getItemId it =
     coalesce (getProp (Some it) ''id'')
       (coalesce (getProp (Some it) ''uuid'')
         (coalesce (getProp (Some it) ''identifier'')
           (coalesce (getProp (Some it) ''escoIdentifier'')
             (coalesce (getProp (Some it) ''uri'') JNull))))"

text \<open>The specification's wording, for comparison: the value of the first field of a
  preference list that the item carries with a value other than \<^verbatim>\<open>null\<close>, and
  \<^verbatim>\<open>null\<close> when there is none.\<close>

fun firstPresent :: "string list \<Rightarrow> json \<Rightarrow> json" where
  "firstPresent [] it = JNull"
| "firstPresent (k # ks) it =
     (case getProp (Some it) k of
        None \<Rightarrow> firstPresent ks it
      | Some JNull \<Rightarrow> firstPresent ks it
      | Some v \<Rightarrow> v)"

text \<open>\<^verbatim>\<open>extractItems\<close>, lines 143-159. The candidates are tried in the source's order;
  the fallback scans the object's values for the first non-empty array whose first
  element is an object.\<close>

definition candidates :: "json \<Rightarrow> json list" where
  "candidates j =
     filter isArray
       (map (\<lambda>v. case v of None \<Rightarrow> JNull | Some x \<Rightarrow> x)
         [getProp (Some j) ''items'',
          getProp (Some j) ''results'',
          getProp (getProp (Some j) ''hits'') ''hits'',
          getProp (getProp (Some j) ''data'') ''items'',
          getProp (getProp (Some j) ''data'') ''results'',
          (if isArray j then Some j else Some JNull)])"

definition extractItems :: "json \<Rightarrow> json list" where
  "extractItems j =
     (if falsy j \<or> \<not> typeofObject j then []
      else case candidates j of
             c # cs \<Rightarrow> elems c
           | [] \<Rightarrow>
             (case find (\<lambda>v. isArray v \<and> elems v \<noteq> [] \<and> typeofObject (hd (elems v)))
                        (objectValues j) of
                Some v \<Rightarrow> elems v
              | None \<Rightarrow> []))"

text \<open>The \<^verbatim>\<open>seen\<close> set of \<^verbatim>\<open>fetchAllFor\<close>, as the list of the values added, oldest
  first. A JavaScript \<^verbatim>\<open>Set\<close> compares primitives by value and objects by reference;
  every object that \<^verbatim>\<open>JSON.parse\<close> builds is a new reference, so an identifier that
  is an array or an object is never found.\<close>

fun primitive :: "json \<Rightarrow> bool" where
  "primitive (JArr xs) = False"
| "primitive (JObj kvs) = False"
| "primitive _ = True"

definition has :: "json list \<Rightarrow> json \<Rightarrow> bool" where
  "has seen v = (primitive v \<and> v \<in> set seen)"

text \<open>Lines 299-306: the filter that keeps the new items of a page and extends
  \<^verbatim>\<open>seen\<close>, item by item from the left. Returns the kept items and the new set.\<close>

fun dedupFilter :: "json list \<Rightarrow> json list \<Rightarrow> json list \<times> json list" where
  "dedupFilter [] seen = ([], seen)"
| "dedupFilter (it # its) seen =
     (let id = getItemId it in
      if falsy id then (it # fst (dedupFilter its seen), snd (dedupFilter its seen))
      else if has seen id then dedupFilter its seen
      else (it # fst (dedupFilter its (seen @ [id])), snd (dedupFilter its (seen @ [id]))))"

section \<open>The network and the retry executors\<close>

text \<open>
  What \<^verbatim>\<open>fetch\<close> hands back: a rejection (timeout, abort, connection reset) or a
  response. \<open>parsed\<close> is what \<^verbatim>\<open>JSON.parse\<close> makes of the body text, \<open>None\<close> where it
  throws. The environment \<open>env k\<close> is the outcome of the \<open>k\<close>-th call of \<^verbatim>\<open>fetch\<close> of
  the run; \<open>served\<close> counts the calls made and \<open>slept\<close> lists the backoff sleeps, oldest
  first. Waiting for a rate-limit token and the random jitter take time only.
\<close>

record response =
  status :: nat
  statusText :: string
  body :: string
  parsed :: "json option"
  contentType :: "string option"

datatype fetch_result = Rejected string | Resolved response

text \<open>The errors thrown, by the template of their message.\<close>

datatype error =
    FetchError string
  | HttpRetryable nat string
  | HttpOther nat string string
  | SyntaxError
  | TypeError

record net =
  served :: nat
  slept :: "nat list"

definition replay :: "fetch_result list \<Rightarrow> fetch_result \<Rightarrow> nat \<Rightarrow> fetch_result" where
  "replay rs d k = (if k < length rs then rs ! k else d)"

definition ok :: "response \<Rightarrow> bool" where
  "ok res = (200 \<le> status res \<and> status res \<le> 299)"

subsection \<open>Bulk fetcher (00save2.js, lines 161-194)\<close>

definition MAX_RETRIES :: nat where "MAX_RETRIES = 3"

text \<open>The \<^verbatim>\<open>try\<close> block of one attempt: \<open>Inl\<close> is what it throws into its own
  \<^verbatim>\<open>catch\<close>.\<close>

definition tryFetch :: "fetch_result \<Rightarrow> error + response" where
  "tryFetch r =
     (case r of
        Rejected e \<Rightarrow> Inl (FetchError e)
      | Resolved res \<Rightarrow>
          if \<not> ok res then
            (if status res \<ge> 500 \<or> status res = 429
             then Inl (HttpRetryable (status res) (statusText res))
             else Inl (HttpOther (status res) (statusText res) (take 500 (body res))))
          else Inr res)"

text \<open>The \<^verbatim>\<open>for\<close> loop from a given attempt number. \<open>Inr None\<close> is the
  \<^verbatim>\<open>undefined\<close> returned when the loop condition fails.\<close>

function fetchWithRetry_loop ::
  "(nat \<Rightarrow> fetch_result) \<Rightarrow> nat \<Rightarrow> nat \<Rightarrow> nat \<Rightarrow> net \<Rightarrow> (error + response option) \<times> net" where
  "fetchWithRetry_loop env retries delayMs attempt n =
     (if attempt \<le> retries then
        (case tryFetch (env (served n)) of
           Inr res \<Rightarrow> (Inr (Some res), n\<lparr>served := Suc (served n)\<rparr>)
         | Inl err \<Rightarrow>
             if attempt < retries
             then fetchWithRetry_loop env retries delayMs (Suc attempt)
                    (n\<lparr>served := Suc (served n), slept := slept n @ [delayMs * 2 ^ attempt]\<rparr>)
             else (Inl err, n\<lparr>served := Suc (served n)\<rparr>))
      else (Inr None, n))"
  by pat_completeness auto
termination
  by (relation "measure (\<lambda>(env, retries, delayMs, attempt, n). Suc retries - attempt)") auto

declare fetchWithRetry_loop.simps [simp del]

definition fetchWithRetry ::
  "(nat \<Rightarrow> fetch_result) \<Rightarrow> nat \<Rightarrow> nat \<Rightarrow> net \<Rightarrow> (error + response option) \<times> net" where
  "fetchWithRetry env retries delayMs n = fetchWithRetry_loop env retries delayMs 0 n"

subsection \<open>Detail fetcher (02fetchCountries.js, lines 45-84)\<close>

fun includes_str :: "string \<Rightarrow> string \<Rightarrow> bool" where
  "includes_str [] sub = (sub = [])"
| "includes_str (c # cs) sub = (take (length sub) (c # cs) = sub \<or> includes_str cs sub)"

definition tryFetch_detail :: "fetch_result \<Rightarrow> error + json" where
  "tryFetch_detail r =
     (case r of
        Rejected e \<Rightarrow> Inl (FetchError e)
      | Resolved res \<Rightarrow>
          if \<not> ok res then
            (if status res \<ge> 500 \<or> status res = 429
             then Inl (HttpRetryable (status res) [])
             else Inl (HttpOther (status res) (statusText res) (take 200 (body res))))
          else if includes_str (case contentType res of None \<Rightarrow> [] | Some ct \<Rightarrow> ct) ''json''
          then (case parsed res of None \<Rightarrow> Inl SyntaxError | Some j \<Rightarrow> Inr j)
          else (case parsed res of None \<Rightarrow> Inr (JObj [(''_raw'', JStr (body res))])
                                 | Some j \<Rightarrow> Inr j))"

function fetchWithRetry_detail_loop ::
  "(nat \<Rightarrow> fetch_result) \<Rightarrow> nat \<Rightarrow> nat \<Rightarrow> net \<Rightarrow> (error + json option) \<times> net" where
  "fetchWithRetry_detail_loop env retries attempt n =
     (if attempt \<le> retries then
        (case tryFetch_detail (env (served n)) of
           Inr j \<Rightarrow> (Inr (Some j), n\<lparr>served := Suc (served n)\<rparr>)
         | Inl err \<Rightarrow>
             if attempt < retries
             then fetchWithRetry_detail_loop env retries (Suc attempt)
                    (n\<lparr>served := Suc (served n), slept := slept n @ [400 * 2 ^ attempt]\<rparr>)
             else (Inl err, n\<lparr>served := Suc (served n)\<rparr>))
      else (Inr None, n))"
  by pat_completeness auto
termination
  by (relation "measure (\<lambda>(env, retries, attempt, n). Suc retries - attempt)") auto

declare fetchWithRetry_detail_loop.simps [simp del]

definition fetchWithRetry_detail ::
  "(nat \<Rightarrow> fetch_result) \<Rightarrow> nat \<Rightarrow> net \<Rightarrow> (error + json option) \<times> net" where
  "fetchWithRetry_detail env retries n = fetchWithRetry_detail_loop env retries 0 n"

subsection \<open>Level fetcher (fetch_levels.js, in src/unnamed/part_000, lines 65-87)\<close>

definition MAX_RETRIES_levels :: nat where "MAX_RETRIES_levels = 6"
definition INITIAL_BACKOFF_MS :: nat where "INITIAL_BACKOFF_MS = 800"

datatype page_result = PageOk json nat | PageFailed string

text \<open>One pass of the \<^verbatim>\<open>while\<close> body: the page when the status is 200 and the body
  parses, \<open>None\<close> for a non-200 status, a rejection or a body that does not parse (the
  last two through the \<^verbatim>\<open>catch\<close>). Each failed pass adds one to \<^verbatim>\<open>attempt\<close> and
  sleeps \<^verbatim>\<open>INITIAL_BACKOFF_MS * 2 ** (attempt - 1)\<close> for the new attempt number.\<close>

definition tryPage :: "fetch_result \<Rightarrow> page_result option" where
  "tryPage r =
     (case r of
        Rejected e \<Rightarrow> None
      | Resolved res \<Rightarrow>
          if status res = 200
          then (case parsed res of None \<Rightarrow> None | Some j \<Rightarrow> Some (PageOk j (status res)))
          else None)"

function fetchPageWithRetry_loop ::
  "(nat \<Rightarrow> fetch_result) \<Rightarrow> nat \<Rightarrow> net \<Rightarrow> page_result \<times> net" where
  "fetchPageWithRetry_loop env attempt n =
     (if attempt < MAX_RETRIES_levels then
        (case tryPage (env (served n)) of
           Some r \<Rightarrow> (r, n\<lparr>served := Suc (served n)\<rparr>)
         | None \<Rightarrow>
             fetchPageWithRetry_loop env (Suc attempt)
               (n\<lparr>served := Suc (served n),
                  slept := slept n @ [INITIAL_BACKOFF_MS * 2 ^ (Suc attempt - 1)]\<rparr>))
      else (PageFailed ''Failed after 6 retries'', n))"
  by pat_completeness auto
termination
  by (relation "measure (\<lambda>(env, attempt, n). MAX_RETRIES_levels - attempt)") auto

declare fetchPageWithRetry_loop.simps [simp del]

definition fetchPageWithRetry :: "(nat \<Rightarrow> fetch_result) \<Rightarrow> net \<Rightarrow> page_result \<times> net" where
  "fetchPageWithRetry env n = fetchPageWithRetry_loop env 0 n"

subsection \<open>Responses used in the statements\<close>

text \<open>A client error other than 429, in the words of the specification.\<close>

definition fatal4xx :: "response \<Rightarrow> bool" where
  "fatal4xx res = (400 \<le> status res \<and> status res \<le> 499 \<and> status res \<noteq> 429)"

definition r404 :: response where
  "r404 = \<lparr>status = 404, statusText = ''Not Found'', body = ''no such page'',
           parsed = None, contentType = None\<rparr>"

definition r503 :: response where
  "r503 = \<lparr>status = 503, statusText = ''Service Unavailable'', body = [],
           parsed = None, contentType = None\<rparr>"

definition r200 :: "json \<Rightarrow> response" where
  "r200 j = \<lparr>status = 200, statusText = ''OK'', body = ''{}'',
             parsed = Some j, contentType = Some ''application/json''\<rparr>"

definition net0 :: net where
  "net0 = \<lparr>served = 0, slept = []\<rparr>"

section \<open>The rate limiter (00save2.js lines 23-26, 02fetchCountries.js lines 18-23)\<close>

text \<open>
  The limiter is one module-level counter \<^verbatim>\<open>tokens\<close>, shared by all workers. Two
  pieces of code touch it, and the event loop runs each of them without interruption:
  the timer callback \<^verbatim>\<open>tokens = Math.min(tokens + MAX_RPS, MAX_RPS)\<close>, and one pass of
  \<^verbatim>\<open>while (tokens <= 0) await sleep(..); tokens--\<close> in \<^verbatim>\<open>rateLimit\<close>, which either
  goes back to sleep or takes a token and releases its request. A run is a schedule of
  such events, each with the time in milliseconds at which it happens; \<open>limiter\<close>
  returns the times of the released requests.
\<close>

datatype tick = Refill | Poll

definition MAX_RPS :: int where "MAX_RPS = 3"
definition MAX_RPS_detail :: int where "MAX_RPS_detail = 20"

definition refill :: "int \<Rightarrow> int \<Rightarrow> int" where
  "refill cap tokens = min (tokens + cap) cap"

fun limiter :: "int \<Rightarrow> int \<Rightarrow> (nat \<times> tick) list \<Rightarrow> nat list" where
  "limiter cap tokens [] = []"
| "limiter cap tokens ((t, Refill) # es) = limiter cap (refill cap tokens) es"
| "limiter cap tokens ((t, Poll) # es) =
     (if tokens \<le> 0 then limiter cap tokens es else t # limiter cap (tokens - 1) es)"

fun tokensAfter :: "int \<Rightarrow> int \<Rightarrow> (nat \<times> tick) list \<Rightarrow> int" where
  "tokensAfter cap tokens [] = tokens"
| "tokensAfter cap tokens ((t, Refill) # es) = tokensAfter cap (refill cap tokens) es"
| "tokensAfter cap tokens ((t, Poll) # es) =
     (if tokens \<le> 0 then tokensAfter cap tokens es else tokensAfter cap (tokens - 1) es)"

definition refills :: "(nat \<times> tick) list \<Rightarrow> nat" where
  "refills es = count_list (map snd es) Refill"

text \<open>The number of requests released in the window of one second that starts at \<open>t\<close>.\<close>

definition releasedIn :: "nat \<Rightarrow> nat list \<Rightarrow> nat" where
  "releasedIn t rel = length (filter (\<lambda>x. t \<le> x \<and> x < t + 1000) rel)"

section \<open>Writing the checkpoint file\<close>

text \<open>
  The disk maps a path to the content of the file there. Every file-system call is logged
  in \<open>trace\<close>, oldest first, together with the sleeps and the console messages between
  them. Whether a call of \<^verbatim>\<open>fs.rename\<close> succeeds is up to the environment:
  \<open>renameError k\<close> is the \<^verbatim>\<open>err.code\<close> of the \<open>k\<close>-th call of the run, \<open>None\<close> when
  it succeeds; \<open>renames\<close> counts the calls made. The write of the temporary file and the
  removal of a file are taken to succeed.
\<close>

datatype fs_op =
    WriteFile string string
  | Rename string string "string option"
  | Unlink string
  | Sleep nat
  | ConsoleWarn
  | ConsoleError

record fsw =
  disk :: "string \<rightharpoonup> string"
  trace :: "fs_op list"
  renames :: nat

fun isWriteFile :: "fs_op \<Rightarrow> bool" where
  "isWriteFile (WriteFile p c) = True"
| "isWriteFile _ = False"

definition writeFile :: "string \<Rightarrow> string \<Rightarrow> fsw \<Rightarrow> fsw" where
  "writeFile p c w = w\<lparr>disk := (disk w)(p \<mapsto> c), trace := trace w @ [WriteFile p c]\<rparr>"

definition unlink :: "string \<Rightarrow> fsw \<Rightarrow> fsw" where
  "unlink p w = w\<lparr>disk := (disk w)(p := None), trace := trace w @ [Unlink p]\<rparr>"

definition sleep :: "nat \<Rightarrow> fsw \<Rightarrow> fsw" where
  "sleep ms w = w\<lparr>trace := trace w @ [Sleep ms]\<rparr>"

definition console :: "fs_op \<Rightarrow> fsw \<Rightarrow> fsw" where
  "console m w = w\<lparr>trace := trace w @ [m]\<rparr>"

text \<open>One call of \<^verbatim>\<open>fs.rename(src, dst)\<close>: the error code when it fails, and the disk
  with \<open>dst\<close> replaced by the file at \<open>src\<close> when it succeeds.\<close>

definition rename :: "(nat \<Rightarrow> string option) \<Rightarrow> string \<Rightarrow> string \<Rightarrow> fsw \<Rightarrow> string option \<times> fsw" where
  "rename renameError src dst w =
     (case renameError (renames w) of
        None \<Rightarrow>
          (None, w\<lparr>disk := (disk w)(dst := disk w src, src := None),
                   trace := trace w @ [Rename src dst None],
                   renames := Suc (renames w)\<rparr>)
      | Some code \<Rightarrow>
          (Some code, w\<lparr>trace := trace w @ [Rename src dst (Some code)],
                        renames := Suc (renames w)\<rparr>))"

subsection \<open>Bulk fetcher (00save2.js, lines 75-105)\<close>

definition META_PATH :: string where
  "META_PATH = ''europass_meta.json''"

text \<open>The \<^verbatim>\<open>for\<close> loop of \<^verbatim>\<open>safeWriteMetaFile\<close> from a given attempt number, with the
  two statements after it. \<open>Inl code\<close> is the rethrown rename error.\<close>

function safeWriteMetaFile_loop ::
  "(nat \<Rightarrow> string option) \<Rightarrow> string \<Rightarrow> nat \<Rightarrow> fsw \<Rightarrow> (string + unit) \<times> fsw" where
  "safeWriteMetaFile_loop renameError tmpFile attempt w =
     (if attempt < 5 then
        (case rename renameError tmpFile META_PATH w of
           (None, w1) \<Rightarrow> (Inr (), w1)
         | (Some code, w1) \<Rightarrow>
             if code = ''EPERM'' \<or> code = ''ENOENT''
             then safeWriteMetaFile_loop renameError tmpFile (Suc attempt)
                    (sleep (100 * (attempt + 1)) w1)
             else (Inl code, unlink tmpFile (console ConsoleError w1)))
      else (Inr (), unlink tmpFile (console ConsoleWarn w)))"
  by pat_completeness auto
termination
  by (relation "measure (\<lambda>(renameError, tmpFile, attempt, w). 5 - attempt)") auto

declare safeWriteMetaFile_loop.simps [simp del]

text \<open>\<open>suffix\<close> stands for the process id, the clock reading and the random digits of
  the temporary name; \<open>content\<close> is \<^verbatim>\<open>JSON.stringify(meta, null, 2)\<close>.\<close>

definition tmpName :: "string \<Rightarrow> string \<Rightarrow> string" where
  "tmpName target suffix = target @ ''.tmp.'' @ suffix"

definition safeWriteMetaFile ::
  "(nat \<Rightarrow> string option) \<Rightarrow> string \<Rightarrow> string \<Rightarrow> fsw \<Rightarrow> (string + unit) \<times> fsw" where
  "safeWriteMetaFile renameError suffix content w =
     safeWriteMetaFile_loop renameError (tmpName META_PATH suffix) 0
       (writeFile (tmpName META_PATH suffix) content w)"

text \<open>\<^verbatim>\<open>saveMeta\<close> catches what \<^verbatim>\<open>safeWriteMetaFile\<close> throws and logs it.\<close>

definition saveMeta :: "(nat \<Rightarrow> string option) \<Rightarrow> string \<Rightarrow> string \<Rightarrow> fsw \<Rightarrow> fsw" where
  "saveMeta renameError suffix content w =
     (case safeWriteMetaFile renameError suffix content w of
        (Inl code, w1) \<Rightarrow> console ConsoleError w1
      | (Inr u, w1) \<Rightarrow> w1)"

subsection \<open>Detail fetcher (02fetchCountries.js, lines 118-126)\<close>

function saveCountryMeta_loop ::
  "(nat \<Rightarrow> string option) \<Rightarrow> string \<Rightarrow> string \<Rightarrow> nat \<Rightarrow> fsw \<Rightarrow> fsw" where
  "saveCountryMeta_loop renameError tmp metaPath i w =
     (if i < 5 then
        (case rename renameError tmp metaPath w of
           (None, w1) \<Rightarrow> w1
         | (Some code, w1) \<Rightarrow>
             saveCountryMeta_loop renameError tmp metaPath (Suc i) (sleep (100 * (i + 1)) w1))
      else unlink tmp w)"
  by pat_completeness auto
termination
  by (relation "measure (\<lambda>(renameError, tmp, metaPath, i, w). 5 - i)") auto

declare saveCountryMeta_loop.simps [simp del]

definition saveCountryMeta ::
  "(nat \<Rightarrow> string option) \<Rightarrow> string \<Rightarrow> string \<Rightarrow> string \<Rightarrow> fsw \<Rightarrow> fsw" where
  "saveCountryMeta renameError suffix metaPath content w =
     saveCountryMeta_loop renameError (tmpName metaPath suffix) metaPath 0
       (writeFile (tmpName metaPath suffix) content w)"

subsection \<open>Level fetcher (fetch_levels.js, in src/unnamed/part_000, lines 47 and 118-120)\<close>

text \<open>\<open>level\<close> is the decimal rendering of the level number.\<close>

definition progressPathFor :: "string \<Rightarrow> string" where
  "progressPathFor level = ''output/level'' @ level @ ''.progress.json''"

definition saveProgress :: "string \<Rightarrow> string \<Rightarrow> fsw \<Rightarrow> fsw" where
  "saveProgress level content w = writeFile (progressPathFor level) content w"

text \<open>A save is done through a temporary file when its first operation writes a file
  other than the target and no operation writes the target in place.\<close>

fun writesInPlace :: "string \<Rightarrow> fs_op list \<Rightarrow> bool" where
  "writesInPlace target [] = False"
| "writesInPlace target (WriteFile p c # ops) = (p = target \<or> writesInPlace target ops)"
| "writesInPlace target (op # ops) = writesInPlace target ops"

text \<open>The error codes after which \<^verbatim>\<open>safeWriteMetaFile\<close> sleeps and tries the rename again
  (line 83: \<^verbatim>\<open>err.code === "EPERM" || err.code === "ENOENT"\<close>).\<close>

definition retryable :: "string option \<Rightarrow> bool" where
  "retryable r = (r = Some ''EPERM'' \<or> r = Some ''ENOENT'')"

text \<open>The operations of \<open>j\<close> failed rename attempts in a row, the first of them being the
  attempt numbered \<open>a\<close> of the loop and the rename numbered \<open>first\<close> of the run: each is
  a rename that fails followed by a sleep of 100 * (attempt + 1) milliseconds.\<close>

definition failedAttempts ::
  "(nat \<Rightarrow> string option) \<Rightarrow> string \<Rightarrow> string \<Rightarrow> nat \<Rightarrow> nat \<Rightarrow> nat \<Rightarrow> fs_op list" where
  "failedAttempts renameError tmp target first a j =
     concat (map (\<lambda>i. [Rename tmp target (renameError (first + i)), Sleep (100 * (a + i + 1))])
               [0..<j])"

definition disk0 :: fsw where
  "disk0 = \<lparr>disk = Map.empty, trace = [], renames = 0\<rparr>"

section \<open>Bulk fetcher: the pagination driver (00save2.js, lines 107-132 and 220-321)\<close>

definition PAGE_SIZE :: nat where "PAGE_SIZE = 10"
definition MAX_PAGES_PER_LEVEL :: nat where "MAX_PAGES_PER_LEVEL = 10000"

text \<open>The checkpoint entry of one scope (country, level), as \<^verbatim>\<open>getMeta\<close> creates it.\<close>

record entry =
  from' :: nat
  completed :: bool
  file' :: string
  lastUpdated :: "string option"
  totalPages :: nat
  totalItems :: nat

definition getMeta :: "entry option \<Rightarrow> string \<Rightarrow> string \<Rightarrow> entry" where
  "getMeta stored country level =
     (case stored of
        Some e \<Rightarrow> e
      | None \<Rightarrow>
          \<lparr>from' = 0, completed = False,
           file' = ''files/'' @ country @ ''_eqf'' @ level @ ''.ndjson'',
           lastUpdated = None, totalPages = 0, totalItems = 0\<rparr>)"

definition markUpdated :: "entry \<Rightarrow> nat \<Rightarrow> nat \<Rightarrow> string \<Rightarrow> entry" where
  "markUpdated e from pageItems ts =
     e\<lparr>from' := from, lastUpdated := Some ts,
       totalPages := totalPages e + 1, totalItems := totalItems e + pageItems\<rparr>"

definition markComplete :: "entry \<Rightarrow> string \<Rightarrow> entry" where
  "markComplete e ts = e\<lparr>completed := True, lastUpdated := Some ts\<rparr>"

text \<open>
  The state a call of \<^verbatim>\<open>fetchAllFor\<close> works on: the entry of the scope inside the
  in-memory document; the NDJSON file at \<^verbatim>\<open>entry.file\<close> as the list of its non-empty
  lines, one record each (\<open>None\<close> when the file is missing); the log \<open>saved\<close> of the
  entry as it stood at each call of \<^verbatim>\<open>saveMeta\<close>, oldest first; the network counters;
  and the number of clock readings. The environment gives the outcome of each call of
  \<^verbatim>\<open>fetch\<close> and the timestamp of each clock reading. Creating the output directory
  and appending to the file are taken to succeed.
\<close>

record world =
  entry :: entry
  ndjson :: "json list option"
  saved :: "entry list"
  network :: net
  clockReads :: nat

record env =
  fetch :: "nat \<Rightarrow> fetch_result"
  now :: "nat \<Rightarrow> string"

text \<open>\<^verbatim>\<open>await saveMeta(meta)\<close> as one scope sees it: the document handed over holds the
  entry as it stands now. How the document reaches the disk is the subject of the section
  on writing the checkpoint file; a save that fails there leaves an earlier element of
  this log on the disk.\<close>

definition persist :: "world \<Rightarrow> world" where
  "persist w = w\<lparr>saved := saved w @ [entry w]\<rparr>"

definition lines :: "world \<Rightarrow> json list" where
  "lines w = (case ndjson w of None \<Rightarrow> [] | Some ls \<Rightarrow> ls)"

text \<open>\<^verbatim>\<open>inferFromFromFile\<close>, lines 220-229.\<close>

definition inferFromFromFile :: "json list option \<Rightarrow> nat" where
  "inferFromFromFile f =
     (case f of None \<Rightarrow> 0 | Some ls \<Rightarrow> (length ls div PAGE_SIZE) * PAGE_SIZE)"

text \<open>\<^verbatim>\<open>appendNdjson\<close>, lines 202-210: nothing is written for an empty list.\<close>

definition appendNdjson :: "json list option \<Rightarrow> json list \<Rightarrow> json list option" where
  "appendNdjson f items =
     (if items = [] then f
      else Some ((case f of None \<Rightarrow> [] | Some ls \<Rightarrow> ls) @ items))"

text \<open>Lines 242-252: the file is missing although the checkpoint says pages were saved.\<close>

definition restartIfMissing :: "nat \<times> world \<Rightarrow> nat \<times> world" where
  "restartIfMissing fw =
     (case fw of (from, w) \<Rightarrow>
        if ndjson w = None \<and> from > 0
        then (0, persist (w\<lparr>entry := (entry w)\<lparr>from' := 0\<rparr>\<rparr>))
        else (from, w))"

text \<open>Lines 254-263: the offset is aligned with the number of lines of the file.\<close>

definition alignWithFile :: "nat \<times> world \<Rightarrow> nat \<times> world" where
  "alignWithFile fw =
     (case fw of (from, w) \<Rightarrow>
        if from > 0 then
          (let inferred = inferFromFromFile (ndjson w) in
           if inferred \<noteq> from
           then (inferred, persist (w\<lparr>entry := (entry w)\<lparr>from' := inferred\<rparr>\<rparr>))
           else (from, w))
        else (from, w))"

text \<open>Lines 268-273 and 291-296: the scope is marked complete and saved.\<close>

definition complete :: "env \<Rightarrow> world \<Rightarrow> world" where
  "complete env w =
     persist (w\<lparr>entry := markComplete (entry w) (now env (clockReads w)),
                clockReads := Suc (clockReads w)\<rparr>)"

text \<open>Lines 298-314: a page with at least one item is filtered, appended, counted and
  saved. The triple is the local offset, the \<^verbatim>\<open>seen\<close> set and the state.\<close>

definition acceptPage :: "env \<Rightarrow> json list \<Rightarrow> nat \<times> json list \<times> world \<Rightarrow> nat \<times> json list \<times> world" where
  "acceptPage env items st =
     (case st of (from, seen, w) \<Rightarrow>
        let newItems = fst (dedupFilter items seen);
            seen1 = snd (dedupFilter items seen);
            w1 = w\<lparr>ndjson := appendNdjson (ndjson w) newItems\<rparr>;
            from1 = from + PAGE_SIZE;
            w2 = w1\<lparr>entry := markUpdated (entry w1) from1 (length newItems)
                                 (now env (clockReads w1)),
                     clockReads := Suc (clockReads w1)\<rparr>
        in (from1, seen1, persist w2))"

text \<open>The \<^verbatim>\<open>while (true)\<close> loop, lines 267-318. \<open>Some err\<close> is the error that leaves
  the function; \<open>None\<close> is a normal return.\<close>

function fetchLoop :: "env \<Rightarrow> nat \<Rightarrow> json list \<Rightarrow> world \<Rightarrow> error option \<times> world" where
  "fetchLoop env from seen w =
     (if totalPages (entry w) \<ge> MAX_PAGES_PER_LEVEL then (None, complete env w)
      else
        (case fetchWithRetry (fetch env) MAX_RETRIES 800 (network w) of
           (Inl err, n) \<Rightarrow> (Some err, w\<lparr>network := n\<rparr>)
         | (Inr None, n) \<Rightarrow> (Some TypeError, w\<lparr>network := n\<rparr>)
         | (Inr (Some res), n) \<Rightarrow>
             (case parsed res of
                None \<Rightarrow> (None, w\<lparr>network := n\<rparr>)
              | Some j \<Rightarrow>
                  if length (extractItems j) = 0 then (None, complete env (w\<lparr>network := n\<rparr>))
                  else
                    (case acceptPage env (extractItems j) (from, seen, w\<lparr>network := n\<rparr>) of
                       (from1, seen1, w1) \<Rightarrow> fetchLoop env from1 seen1 w1))))"
  by pat_completeness auto
termination
  by (relation "measure (\<lambda>(env, from, seen, w). MAX_PAGES_PER_LEVEL - totalPages (entry w))")
     (auto simp: acceptPage_def persist_def markUpdated_def Let_def)

declare fetchLoop.simps [simp del]

definition fetchAllFor :: "env \<Rightarrow> world \<Rightarrow> error option \<times> world" where
  "fetchAllFor env w =
     (if completed (entry w) then (None, w)
      else
        (case alignWithFile (restartIfMissing (from' (entry w), w)) of
           (from, w1) \<Rightarrow> fetchLoop env from [] w1))"

text \<open>An identifier that the filter tracks: line 302 lets an item with a falsy identifier
  pass, and the set only finds primitives again.\<close>

definition tracked :: "json \<Rightarrow> bool" where
  "tracked v = (\<not> falsy v \<and> primitive v)"

definition trackedIds :: "json list \<Rightarrow> json list" where
  "trackedIds items = filter tracked (map getItemId items)"

section \<open>Level fetcher: processLevel (fetch_levels.js, in src/unnamed/part_000,
  lines 90-149 and 204-284)\<close>

definition SIZE :: nat where "SIZE = 150"

text \<open>\<^verbatim>\<open>new Set(arr)\<close> and \<^verbatim>\<open>set.add(v)\<close> on the list model of a set.\<close>

definition setAdd :: "json list \<Rightarrow> json \<Rightarrow> json list" where
  "setAdd s v = (if has s v then s else s @ [v])"

definition newSet :: "json list \<Rightarrow> json list" where
  "newSet xs = foldl setAdd [] xs"

text \<open>
  The files of one level: the index file as the value it parses to (\<open>None\<close> when the
  file is missing or does not parse), the progress file as the pair of \<^verbatim>\<open>lastFrom\<close> and
  \<^verbatim>\<open>totalSaved\<close> that \<^verbatim>\<open>saveProgress\<close> writes (\<open>None\<close> when missing, not
  parseable or without an integer \<^verbatim>\<open>lastFrom\<close>), the NDJSON file as its list of records, and the final JSON file as its
  \<^verbatim>\<open>lastFrom\<close>, its \<^verbatim>\<open>totalSaved\<close> and its courses. Writes are taken to succeed.
\<close>

record level_state =
  indexFile :: "json option"
  progressFile :: "(nat \<times> nat) option"
  coursesFile :: "json list option"
  finalFile :: "(nat \<times> nat \<times> json list) option"
  levelNet :: net

definition coursesLines :: "level_state \<Rightarrow> json list" where
  "coursesLines st = (case coursesFile st of None \<Rightarrow> [] | Some ls \<Rightarrow> ls)"

text \<open>\<^verbatim>\<open>loadIndex\<close>, lines 90-100.\<close>

definition loadIndex :: "json option \<Rightarrow> json list" where
  "loadIndex f = (case f of Some (JArr xs) \<Rightarrow> newSet xs | _ \<Rightarrow> [])"

text \<open>\<^verbatim>\<open>saveIndex\<close> (lines 102-105) and \<^verbatim>\<open>saveProgress\<close> (lines 118-120) as the
  level's files see them.\<close>

definition saveIndex :: "json list \<Rightarrow> level_state \<Rightarrow> level_state" where
  "saveIndex uriSet st = st\<lparr>indexFile := Some (JArr uriSet)\<rparr>"

definition writeProgress :: "nat \<Rightarrow> nat \<Rightarrow> level_state \<Rightarrow> level_state" where
  "writeProgress lastFrom totalSaved st = st\<lparr>progressFile := Some (lastFrom, totalSaved)\<rparr>"

text \<open>\<^verbatim>\<open>c && c.uri\<close>, line 132.\<close>

definition courseUri :: "json \<Rightarrow> json option" where
  "courseUri c = (if falsy c then Some c else getProp (Some c) ''uri'')"

text \<open>The \<^verbatim>\<open>for\<close> loop of \<^verbatim>\<open>appendUniqueCoursesToNdjson\<close>, lines 131-140: the courses
  written and the new set.\<close>

fun appendUnique :: "json list \<Rightarrow> json list \<Rightarrow> json list \<times> json list" where
  "appendUnique [] uriSet = ([], uriSet)"
| "appendUnique (c # cs) uriSet =
     (case courseUri c of
        None \<Rightarrow> appendUnique cs uriSet
      | Some u \<Rightarrow>
          if falsy u then appendUnique cs uriSet
          else if has uriSet u then appendUnique cs uriSet
          else (c # fst (appendUnique cs (uriSet @ [u])), snd (appendUnique cs (uriSet @ [u]))))"

text \<open>\<^verbatim>\<open>appendUniqueCoursesToNdjson\<close>, lines 123-149: the number appended, the new set
  and the new state. The stream creates the file even when nothing is written.\<close>

definition appendUniqueCoursesToNdjson ::
  "json list \<Rightarrow> json list \<Rightarrow> level_state \<Rightarrow> nat \<times> json list \<times> level_state" where
  "appendUniqueCoursesToNdjson courses uriSet st =
     (if courses = [] then (0, uriSet, st)
      else (length (fst (appendUnique courses uriSet)),
            snd (appendUnique courses uriSet),
            st\<lparr>coursesFile := Some (coursesLines st @ fst (appendUnique courses uriSet))\<rparr>))"

text \<open>\<^verbatim>\<open>regenerateFinalJson\<close>, lines 152-201.\<close>

definition regenerateFinalJson :: "nat \<Rightarrow> level_state \<Rightarrow> level_state" where
  "regenerateFinalJson lastFrom st =
     (case coursesFile st of
        None \<Rightarrow> st\<lparr>finalFile := Some (lastFrom, 0, [])\<rparr>
      | Some ls \<Rightarrow> st\<lparr>finalFile := Some (lastFrom, length ls, ls)\<rparr>)"

text \<open>Lines 236 and 268-269: the pagination block says that this was the last page.\<close>

definition isLastPage :: "json \<Rightarrow> bool" where
  "isLastPage data =
     (let pagination = coalesce (getProp (Some data) ''paginationInfos'') JNull in
      \<not> falsy pagination \<and>
      (case getProp (Some pagination) ''currentPageNumber'' of
         Some (JNum c) \<Rightarrow>
           (case getProp (Some pagination) ''totalPageCount'' of
              Some (JNum t) \<Rightarrow> c \<ge> t
            | _ \<Rightarrow> False)
       | _ \<Rightarrow> False))"

text \<open>
  The \<^verbatim>\<open>while (true)\<close> loop of \<^verbatim>\<open>processLevel\<close>, lines 221-281. The source puts no
  bound on the number of pages, so the loop takes fuel, one unit for each pass; \<open>None\<close>
  means that the fuel ran out before the loop ended. \<open>Some TypeError\<close> is the error of
  reading \<^verbatim>\<open>data.courses\<close> when the body is \<^verbatim>\<open>null\<close>.
\<close>

fun processLevel_loop ::
  "nat \<Rightarrow> (nat \<Rightarrow> fetch_result) \<Rightarrow> nat \<Rightarrow> nat \<Rightarrow> json list \<Rightarrow> level_state
     \<Rightarrow> (error option \<times> level_state) option" where
  "processLevel_loop 0 f from totalSaved uriSet st = None"
| "processLevel_loop (Suc fuel) f from totalSaved uriSet st =
     (case fetchPageWithRetry f (levelNet st) of
        (PageFailed msg, n) \<Rightarrow>
          Some (None, saveIndex uriSet (writeProgress (from - SIZE) totalSaved
                        (st\<lparr>levelNet := n\<rparr>)))
      | (PageOk data code, n) \<Rightarrow>
          if data = JNull then Some (Some TypeError, st\<lparr>levelNet := n\<rparr>)
          else
            (case getProp (Some data) ''courses'' of
               Some (JArr courses) \<Rightarrow>
                 if courses = [] then
                   Some (None, saveIndex uriSet (writeProgress (from - SIZE) totalSaved
                                 (regenerateFinalJson (from - SIZE) (st\<lparr>levelNet := n\<rparr>))))
                 else
                   (case appendUniqueCoursesToNdjson courses uriSet (st\<lparr>levelNet := n\<rparr>) of
                      (appended, uriSet1, st1) \<Rightarrow>
                        let totalSaved1 = totalSaved + appended;
                            st2 = regenerateFinalJson from
                                    (writeProgress from totalSaved1 (saveIndex uriSet1 st1))
                        in if isLastPage data
                           then Some (None, saveIndex uriSet1 (writeProgress from totalSaved1
                                              (regenerateFinalJson from st2)))
                           else processLevel_loop fuel f (from + SIZE) totalSaved1 uriSet1 st2)
             | _ \<Rightarrow>
                 Some (None, saveIndex uriSet (writeProgress from totalSaved
                               (st\<lparr>levelNet := n\<rparr>)))))"

text \<open>\<^verbatim>\<open>processLevel\<close>, lines 204-219: the set comes from the index file, the offset
  and the count from the progress file.\<close>

definition processLevel ::
  "nat \<Rightarrow> (nat \<Rightarrow> fetch_result) \<Rightarrow> level_state \<Rightarrow> (error option \<times> level_state) option" where
  "processLevel fuel f st =
     (let uriSet = loadIndex (indexFile st) in
      case progressFile st of
        Some (lastFrom, saved0) \<Rightarrow> processLevel_loop fuel f (lastFrom + SIZE) saved0 uriSet st
      | None \<Rightarrow> processLevel_loop fuel f 0 (length uriSet) uriSet st)"

text \<open>The uris of a list of records that deduplication can track, one entry for each
  record whose uri is truthy and a primitive value: line 133 skips a course with a falsy
  uri, and the set only finds primitives again.\<close>

fun trackedUris :: "json list \<Rightarrow> json list" where
  "trackedUris [] = []"
| "trackedUris (c # cs) =
     (case courseUri c of
        None \<Rightarrow> trackedUris cs
      | Some u \<Rightarrow> if tracked u then u # trackedUris cs else trackedUris cs)"

text \<open>The index file covers the output file: the set that \<^verbatim>\<open>loadIndex\<close> builds finds the
  tracked uri of every record of the output file.\<close>

definition indexCovers :: "level_state \<Rightarrow> bool" where
  "indexCovers st = list_all (has (loadIndex (indexFile st))) (trackedUris (coursesLines st))"

section \<open>Detail fetcher: what is done with one input line (02fetchCountries.js, lines 205-237)\<close>

text \<open>
  \<^verbatim>\<open>parseIdFromUri\<close> works through the URL parser and a regular expression; it is taken
  as a parameter, \<open>None\<close> for \<^verbatim>\<open>null\<close>. \<open>existsSync\<close> tells whether a file of the
  output directory exists; \<open>obj\<close> is the parsed line, \<open>None\<close> where it does not parse.
\<close>

datatype line_action = NoUri | BadId | SkipExisting | Fetch json string

definition lineAction ::
  "(json \<Rightarrow> string option) \<Rightarrow> (string \<Rightarrow> bool) \<Rightarrow> json option \<Rightarrow> line_action" where
  "lineAction parseIdFromUri existsSync obj =
     (case getProp obj ''uri'' of
        None \<Rightarrow> NoUri
      | Some uri \<Rightarrow>
          if falsy uri then NoUri
          else
            (case parseIdFromUri uri of
               None \<Rightarrow> BadId
             | Some i \<Rightarrow>
                 if i = [] then BadId
                 else if existsSync (i @ ''.json'') then SkipExisting
                 else Fetch uri (i @ ''.json'')))"

text \<open>Scenario values for the pagination driver: items and pages with numeric identifiers,
  a clock, a fresh scope, a source that serves pages of 10, 10, 5 and 0 items, a source
  that is down, and two scopes resumed at offset 20 (output file missing, output file of
  12 lines).\<close>

definition item :: "int \<Rightarrow> json" where
  "item k = JObj [(''id'', JNum k), (''title'', JStr ''t'')]"

definition page :: "int list \<Rightarrow> json" where
  "page ks = JObj [(''items'', JArr (map item ks))]"

definition clock :: "nat \<Rightarrow> string" where
  "clock k = ''2025-01-01T00:00:00.000Z''"

definition world0 :: world where
  "world0 = \<lparr>entry = getMeta None ''DEU'' ''1'', ndjson = None, saved = [],
             network = net0, clockReads = 0\<rparr>"

definition envPages :: env where
  "envPages =
     \<lparr>fetch = replay [Resolved (r200 (page [1, 2, 3, 4, 5, 6, 7, 8, 9, 10])),
                      Resolved (r200 (page [11, 12, 13, 14, 15, 16, 17, 18, 19, 20])),
                      Resolved (r200 (page [21, 22, 23, 24, 25])),
                      Resolved (r200 (page []))] (Rejected []),
      now = clock\<rparr>"

definition envDown :: env where
  "envDown = \<lparr>fetch = replay [] (Rejected ''ECONNRESET''), now = clock\<rparr>"

definition worldMissing :: world where
  "worldMissing =
     \<lparr>entry = (getMeta None ''DEU'' ''1'')\<lparr>from' := 20, totalPages := 2, totalItems := 20\<rparr>,
      ndjson = None, saved = [], network = net0, clockReads = 0\<rparr>"

definition worldShort :: world where
  "worldShort =
     \<lparr>entry = (getMeta None ''DEU'' ''1'')\<lparr>from' := 20, totalPages := 2, totalItems := 20\<rparr>,
      ndjson = Some (map item [1, 2, 3, 4, 5, 6, 7, 8, 9, 10, 11, 12]), saved = [],
      network = net0, clockReads = 0\<rparr>"

text \<open>A warm restart with cursor drift: the first run saves a page of ten items and stops
  at a body that is not JSON; the second run is served a page that repeats item 10.\<close>

definition rNonJson :: response where
  "rNonJson = \<lparr>status = 200, statusText = ''OK'', body = ''<html>'',
               parsed = None, contentType = Some ''text/html''\<rparr>"

definition envDrift :: env where
  "envDrift =
     \<lparr>fetch = replay [Resolved (r200 (page [1, 2, 3, 4, 5, 6, 7, 8, 9, 10])),
                      Resolved rNonJson,
                      Resolved (r200 (page [10, 11])),
                      Resolved (r200 (page []))] (Rejected []),
      now = clock\<rparr>"

text \<open>Scenario values for the level fetcher: courses and pages of courses with string
  uris.\<close>

definition course :: "string \<Rightarrow> json" where
  "course u = JObj [(''uri'', JStr u), (''title'', JStr ''c'')]"

definition coursesPage :: "string list \<Rightarrow> json" where
  "coursesPage us = JObj [(''courses'', JArr (map course us))]"

text \<open>Scenario values for a warm restart of the level fetcher: a level without files; a
  level whose output file holds the course u1 and whose index file is missing or does
  not parse; a source that serves the courses u1 and u2, then a body without a course
  list (which ends the first run), then the courses u2 and u3 and an empty page; a
  course whose uri is an object; and a source that serves that course to the first run
  and again to the second.\<close>

definition levelFresh :: level_state where
  "levelFresh = \<lparr>indexFile = None, progressFile = None, coursesFile = None, finalFile = None,
                 levelNet = net0\<rparr>"

definition levelNoIndex :: level_state where
  "levelNoIndex = \<lparr>indexFile = None, progressFile = None, coursesFile = Some [course ''u1''],
                   finalFile = None, levelNet = net0\<rparr>"

definition sourceRestart :: "nat \<Rightarrow> fetch_result" where
  "sourceRestart =
     replay [Resolved (r200 (coursesPage [''u1'', ''u2''])), Resolved (r200 (JObj [])),
             Resolved (r200 (coursesPage [''u2'', ''u3''])), Resolved (r200 (coursesPage []))]
       (Rejected [])"

definition courseObj :: json where
  "courseObj = JObj [(''uri'', JObj [(''id'', JStr ''u1'')])]"

definition sourceObj :: "nat \<Rightarrow> fetch_result" where
  "sourceObj =
     replay [Resolved (r200 (JObj [(''courses'', JArr [courseObj])])), Resolved (r200 (JObj [])),
             Resolved (r200 (JObj [(''courses'', JArr [courseObj])])),
             Resolved (r200 (coursesPage []))]
       (Rejected [])"

text \<open>Scenario values for the accepted count: a source of the bulk fetcher whose first
  two pages both hold the item with identifier 0, an item whose identifier is an object,
  a source of the level fetcher whose first two pages both hold the course u2, and one
  whose first two pages both hold the course whose uri is an object.\<close>

definition envZero :: env where
  "envZero =
     \<lparr>fetch = replay [Resolved (r200 (page [0, 1])), Resolved (r200 (page [0, 2])),
                      Resolved (r200 (page []))] (Rejected []),
      now = clock\<rparr>"

definition itemObj :: json where
  "itemObj = JObj [(''id'', JObj [(''k'', JNum 1)])]"

definition sourceTwice :: "nat \<Rightarrow> fetch_result" where
  "sourceTwice =
     replay [Resolved (r200 (coursesPage [''u1'', ''u2''])),
             Resolved (r200 (coursesPage [''u2'', ''u3''])),
             Resolved (r200 (coursesPage []))]
       (Rejected [])"

definition sourceObjTwice :: "nat \<Rightarrow> fetch_result" where
  "sourceObjTwice =
     replay [Resolved (r200 (JObj [(''courses'', JArr [courseObj])])),
             Resolved (r200 (JObj [(''courses'', JArr [courseObj])])),
             Resolved (r200 (coursesPage []))]
       (Rejected [])"

text \<open>Scenario values: a rename that always fails with a given code, and a disk that
  holds an earlier checkpoint.\<close>

definition alwaysFails :: "string \<Rightarrow> nat \<Rightarrow> string option" where
  "alwaysFails code k = Some code"

text \<open>A rename that fails \<open>k\<close> times with a given code and then succeeds.\<close>

definition failsThenOk :: "nat \<Rightarrow> string \<Rightarrow> nat \<Rightarrow> string option" where
  "failsThenOk k code i = (if i < k then Some code else None)"

definition diskOld :: fsw where
  "diskOld = \<lparr>disk = [META_PATH \<mapsto> ''old''], trace = [], renames = 0\<rparr>"

section \<open>Identifier extraction\<close>

text \<open>
  Claim C9, as amended. The identifier of an item is the value of the first of the
  fields id, uuid, identifier, escoIdentifier, uri (in this order) that the item carries
  with a value other than null, and null when there is none: escoIdentifier is consulted
  before uri.
\<close>

theorem getItemId_preference_order:
  "getItemId it = firstPresent [''id'', ''uuid'', ''identifier'', ''escoIdentifier'', ''uri''] it"
proof -
  have step: "firstPresent (k # ks) it = coalesce (getProp (Some it) k) (firstPresent ks it)"
    for k ks
  proof (cases "getProp (Some it) k")
    case None
    then show ?thesis by simp
  next
    case (Some x)
    then show ?thesis by (cases x) simp_all
  qed
  show ?thesis
    by (simp only: getItemId_def step firstPresent.simps(1))
qed

text \<open>
  Claim C9 as stated, with the preference list id, uuid, identifier, uri, fails on an item
  that carries both escoIdentifier and uri: the code answers the escoIdentifier.
\<close>

theorem getItemId_esco_counterexample:
  "getItemId (JObj [(''escoIdentifier'', JStr ''E''), (''uri'', JStr ''U'')])
     \<noteq> firstPresent [''id'', ''uuid'', ''identifier'', ''uri'']
           (JObj [(''escoIdentifier'', JStr ''E''), (''uri'', JStr ''U'')])"
  by (simp add: getItemId_def)

section \<open>Retry executors: general facts\<close>

lemma tryFetch_fatal4xx:
  "fatal4xx res \<Longrightarrow>
     tryFetch (Resolved res) = Inl (HttpOther (status res) (statusText res) (take 500 (body res)))"
  by (simp add: tryFetch_def fatal4xx_def ok_def)

lemma tryFetch_detail_fatal4xx:
  "fatal4xx res \<Longrightarrow>
     tryFetch_detail (Resolved res) =
       Inl (HttpOther (status res) (statusText res) (take 200 (body res)))"
  by (simp add: tryFetch_detail_def fatal4xx_def ok_def)

lemma tryPage_not200: "status res \<noteq> 200 \<Longrightarrow> tryPage (Resolved res) = None"
  by (simp add: tryPage_def)

lemma fetchWithRetry_loop_retry:
  "attempt < retries \<Longrightarrow> tryFetch (env (served n)) = Inl e \<Longrightarrow>
     fetchWithRetry_loop env retries delayMs attempt n =
       fetchWithRetry_loop env retries delayMs (Suc attempt)
         (n\<lparr>served := Suc (served n), slept := slept n @ [delayMs * 2 ^ attempt]\<rparr>)"
  by (subst fetchWithRetry_loop.simps) simp

lemma fetchWithRetry_loop_last:
  "tryFetch (env (served n)) = Inl e \<Longrightarrow>
     fetchWithRetry_loop env retries delayMs retries n = (Inl e, n\<lparr>served := Suc (served n)\<rparr>)"
  by (subst fetchWithRetry_loop.simps) simp

lemma fetchWithRetry_loop_success:
  "attempt \<le> retries \<Longrightarrow> tryFetch (env (served n)) = Inr res \<Longrightarrow>
     fetchWithRetry_loop env retries delayMs attempt n =
       (Inr (Some res), n\<lparr>served := Suc (served n)\<rparr>)"
  by (subst fetchWithRetry_loop.simps) simp

lemma fetchWithRetry_detail_loop_retry:
  "attempt < retries \<Longrightarrow> tryFetch_detail (env (served n)) = Inl e \<Longrightarrow>
     fetchWithRetry_detail_loop env retries attempt n =
       fetchWithRetry_detail_loop env retries (Suc attempt)
         (n\<lparr>served := Suc (served n), slept := slept n @ [400 * 2 ^ attempt]\<rparr>)"
  by (subst fetchWithRetry_detail_loop.simps) simp

lemma fetchWithRetry_detail_loop_last:
  "tryFetch_detail (env (served n)) = Inl e \<Longrightarrow>
     fetchWithRetry_detail_loop env retries retries n = (Inl e, n\<lparr>served := Suc (served n)\<rparr>)"
  by (subst fetchWithRetry_detail_loop.simps) simp

lemma fetchPageWithRetry_loop_retry:
  "attempt < MAX_RETRIES_levels \<Longrightarrow> tryPage (env (served n)) = None \<Longrightarrow>
     fetchPageWithRetry_loop env attempt n =
       fetchPageWithRetry_loop env (Suc attempt)
         (n\<lparr>served := Suc (served n), slept := slept n @ [INITIAL_BACKOFF_MS * 2 ^ attempt]\<rparr>)"
  by (subst fetchPageWithRetry_loop.simps) simp

lemma fetchPageWithRetry_loop_exhausted:
  "fetchPageWithRetry_loop env MAX_RETRIES_levels n = (PageFailed ''Failed after 6 retries'', n)"
  by (subst fetchPageWithRetry_loop.simps) simp

text \<open>When every attempt fails, the bulk executor has made \<open>retries + 1\<close> requests, has
  slept \<open>delayMs * 2 ^ i\<close> after each but the last, and throws the last error.\<close>

lemma fetchWithRetry_loop_all_fail:
  assumes "attempt \<le> retries"
    and "\<And>k. k \<le> retries - attempt \<Longrightarrow> \<exists>e. tryFetch (env (served n + k)) = Inl e"
  shows "\<exists>e. tryFetch (env (served n + (retries - attempt))) = Inl e \<and>
           fetchWithRetry_loop env retries delayMs attempt n =
             (Inl e, n\<lparr>served := served n + (retries - attempt) + 1,
                        slept := slept n @ map (\<lambda>i. delayMs * 2 ^ i) [attempt..<retries]\<rparr>)"
  using assms
proof (induction "retries - attempt" arbitrary: attempt n)
  case 0
  then have eq: "attempt = retries" by simp
  from "0.prems"(2) [of 0] obtain e where e: "tryFetch (env (served n)) = Inl e" by auto
  show ?case
    using e by (simp add: eq fetchWithRetry_loop_last)
next
  case (Suc d)
  then have lt: "attempt < retries" and d: "d = retries - Suc attempt" by simp_all
  from Suc.prems(2) [of 0] obtain e0 where e0: "tryFetch (env (served n)) = Inl e0" by auto
  let ?n = "n\<lparr>served := Suc (served n), slept := slept n @ [delayMs * 2 ^ attempt]\<rparr>"
  have later: "\<exists>e. tryFetch (env (served ?n + k)) = Inl e" if "k \<le> retries - Suc attempt" for k
    using Suc.prems(2) [of "Suc k"] that lt by simp
  from Suc.hyps(1) [OF d _ later] lt
  obtain e where e: "tryFetch (env (served ?n + (retries - Suc attempt))) = Inl e"
    and run: "fetchWithRetry_loop env retries delayMs (Suc attempt) ?n =
       (Inl e, ?n\<lparr>served := served ?n + (retries - Suc attempt) + 1,
                   slept := slept ?n @ map (\<lambda>i. delayMs * 2 ^ i) [Suc attempt..<retries]\<rparr>)"
    by auto
  have idx: "served ?n + (retries - Suc attempt) = served n + (retries - attempt)"
    using lt by simp
  have sl: "[attempt..<retries] = attempt # [Suc attempt..<retries]"
    using lt by (simp add: upt_conv_Cons)
  have step: "fetchWithRetry_loop env retries delayMs attempt n = fetchWithRetry_loop env retries delayMs (Suc attempt) ?n"
    using lt e0 by (rule fetchWithRetry_loop_retry)
  from e have e': "tryFetch (env (served n + (retries - attempt))) = Inl e"
    unfolding idx .
  have res: "?n\<lparr>served := served ?n + (retries - Suc attempt) + 1,
                 slept := slept ?n @ map (\<lambda>i. delayMs * 2 ^ i) [Suc attempt..<retries]\<rparr> =
             n\<lparr>served := served n + (retries - attempt) + 1,
                slept := slept n @ map (\<lambda>i. delayMs * 2 ^ i) [attempt..<retries]\<rparr>"
    using lt by (simp add: sl)
  show ?case
    unfolding step run res using e' by blast
qed

lemma fetchWithRetry_detail_loop_all_fail:
  assumes "attempt \<le> retries"
    and "\<And>k. k \<le> retries - attempt \<Longrightarrow> \<exists>e. tryFetch_detail (env (served n + k)) = Inl e"
  shows "\<exists>e. tryFetch_detail (env (served n + (retries - attempt))) = Inl e \<and>
           fetchWithRetry_detail_loop env retries attempt n =
             (Inl e, n\<lparr>served := served n + (retries - attempt) + 1,
                        slept := slept n @ map (\<lambda>i. 400 * 2 ^ i) [attempt..<retries]\<rparr>)"
  using assms
proof (induction "retries - attempt" arbitrary: attempt n)
  case 0
  then have eq: "attempt = retries" by simp
  from "0.prems"(2) [of 0] obtain e where e: "tryFetch_detail (env (served n)) = Inl e" by auto
  show ?case
    using e by (simp add: eq fetchWithRetry_detail_loop_last)
next
  case (Suc d)
  then have lt: "attempt < retries" and d: "d = retries - Suc attempt" by simp_all
  from Suc.prems(2) [of 0] obtain e0 where e0: "tryFetch_detail (env (served n)) = Inl e0"
    by auto
  let ?n = "n\<lparr>served := Suc (served n), slept := slept n @ [400 * 2 ^ attempt]\<rparr>"
  have later: "\<exists>e. tryFetch_detail (env (served ?n + k)) = Inl e"
    if "k \<le> retries - Suc attempt" for k
    using Suc.prems(2) [of "Suc k"] that lt by simp
  from Suc.hyps(1) [OF d _ later] lt
  obtain e where e: "tryFetch_detail (env (served ?n + (retries - Suc attempt))) = Inl e"
    and run: "fetchWithRetry_detail_loop env retries (Suc attempt) ?n =
       (Inl e, ?n\<lparr>served := served ?n + (retries - Suc attempt) + 1,
                   slept := slept ?n @ map (\<lambda>i. 400 * 2 ^ i) [Suc attempt..<retries]\<rparr>)"
    by auto
  have idx: "served ?n + (retries - Suc attempt) = served n + (retries - attempt)"
    using lt by simp
  have sl: "[attempt..<retries] = attempt # [Suc attempt..<retries]"
    using lt by (simp add: upt_conv_Cons)
  have step: "fetchWithRetry_detail_loop env retries attempt n = fetchWithRetry_detail_loop env retries (Suc attempt) ?n"
    using lt e0 by (rule fetchWithRetry_detail_loop_retry)
  from e have e': "tryFetch_detail (env (served n + (retries - attempt))) = Inl e"
    unfolding idx .
  have res: "?n\<lparr>served := served ?n + (retries - Suc attempt) + 1,
                 slept := slept ?n @ map (\<lambda>i. 400 * 2 ^ i) [Suc attempt..<retries]\<rparr> =
             n\<lparr>served := served n + (retries - attempt) + 1,
                slept := slept n @ map (\<lambda>i. 400 * 2 ^ i) [attempt..<retries]\<rparr>"
    using lt by (simp add: sl)
  show ?case
    unfolding step run res using e' by blast
qed

lemma fetchPageWithRetry_loop_all_fail:
  assumes "attempt \<le> MAX_RETRIES_levels"
    and "\<And>k. k < MAX_RETRIES_levels - attempt \<Longrightarrow> tryPage (env (served n + k)) = None"
  shows "fetchPageWithRetry_loop env attempt n =
           (PageFailed ''Failed after 6 retries'',
            n\<lparr>served := served n + (MAX_RETRIES_levels - attempt),
               slept := slept n @
                 map (\<lambda>i. INITIAL_BACKOFF_MS * 2 ^ i) [attempt..<MAX_RETRIES_levels]\<rparr>)"
  using assms
proof (induction "MAX_RETRIES_levels - attempt" arbitrary: attempt n)
  case 0
  then have eq: "attempt = MAX_RETRIES_levels" by simp
  show ?case
    by (simp add: eq fetchPageWithRetry_loop_exhausted)
next
  case (Suc d)
  then have lt: "attempt < MAX_RETRIES_levels" and d: "d = MAX_RETRIES_levels - Suc attempt"
    by simp_all
  from Suc.prems(2) [of 0] lt have e0: "tryPage (env (served n)) = None" by simp
  let ?n = "n\<lparr>served := Suc (served n), slept := slept n @ [INITIAL_BACKOFF_MS * 2 ^ attempt]\<rparr>"
  have later: "tryPage (env (served ?n + k)) = None"
    if "k < MAX_RETRIES_levels - Suc attempt" for k
    using Suc.prems(2) [of "Suc k"] that lt by simp
  have sl: "[attempt..<MAX_RETRIES_levels] = attempt # [Suc attempt..<MAX_RETRIES_levels]"
    using lt by (simp add: upt_conv_Cons)
  show ?case
    using Suc.hyps(1) [OF d _ later] lt
    by (simp add: fetchPageWithRetry_loop_retry [where env = env and n = n, OF lt e0] sl)
qed

section \<open>Client errors in the retry executors\<close>

text \<open>
  Claim C2, as amended. A response with a 4xx status other than 429 is turned into an
  error that carries the status, the status text and the first 500 characters of the body
  (200 in the detail fetcher), and that error is handled like every other failure of an
  attempt: while attempts remain the executor sleeps the backoff of this attempt and
  tries again, and only at the last attempt the error is thrown to the caller. The level
  fetcher retries every status other than 200 in the same way.
\<close>

theorem client_error_consumes_attempt:
  assumes "fatal4xx res" and "env (served n) = Resolved res"
  shows "(attempt < retries \<longrightarrow>
            fetchWithRetry_loop env retries delayMs attempt n =
              fetchWithRetry_loop env retries delayMs (Suc attempt)
                (n\<lparr>served := Suc (served n), slept := slept n @ [delayMs * 2 ^ attempt]\<rparr>)) \<and>
         fetchWithRetry_loop env retries delayMs retries n =
           (Inl (HttpOther (status res) (statusText res) (take 500 (body res))),
            n\<lparr>served := Suc (served n)\<rparr>) \<and>
         (attempt < retries \<longrightarrow>
            fetchWithRetry_detail_loop env retries attempt n =
              fetchWithRetry_detail_loop env retries (Suc attempt)
                (n\<lparr>served := Suc (served n), slept := slept n @ [400 * 2 ^ attempt]\<rparr>)) \<and>
         fetchWithRetry_detail_loop env retries retries n =
           (Inl (HttpOther (status res) (statusText res) (take 200 (body res))),
            n\<lparr>served := Suc (served n)\<rparr>) \<and>
         (attempt < MAX_RETRIES_levels \<longrightarrow>
            fetchPageWithRetry_loop env attempt n =
              fetchPageWithRetry_loop env (Suc attempt)
                (n\<lparr>served := Suc (served n),
                   slept := slept n @ [INITIAL_BACKOFF_MS * 2 ^ attempt]\<rparr>))"
proof -
  have bulk: "tryFetch (env (served n)) =
      Inl (HttpOther (status res) (statusText res) (take 500 (body res)))"
    using assms by (simp add: tryFetch_fatal4xx)
  have detail: "tryFetch_detail (env (served n)) =
      Inl (HttpOther (status res) (statusText res) (take 200 (body res)))"
    using assms by (simp add: tryFetch_detail_fatal4xx)
  have "status res \<noteq> 200"
    using assms(1) by (simp add: fatal4xx_def)
  then have levels: "tryPage (env (served n)) = None"
    using assms(2) by (simp add: tryPage_not200)
  show ?thesis
    using fetchWithRetry_loop_retry [where env = env and n = n, OF _ bulk]
      fetchWithRetry_loop_last [where env = env and n = n, OF bulk]
      fetchWithRetry_detail_loop_retry [where env = env and n = n, OF _ detail]
      fetchWithRetry_detail_loop_last [where env = env and n = n, OF detail]
      fetchPageWithRetry_loop_retry [where env = env and n = n, OF _ levels]
    by blast
qed

theorem client_error_consumes_attempt_witness:
  "fatal4xx r404 \<and>
   fetchWithRetry_loop (replay [Resolved r404, Resolved (r200 JNull)] (Rejected [])) 3 800 0 net0 =
     fetchWithRetry_loop (replay [Resolved r404, Resolved (r200 JNull)] (Rejected [])) 3 800 (Suc 0)
       (net0\<lparr>served := Suc (served net0), slept := slept net0 @ [800 * 2 ^ 0]\<rparr>)"
proof -
  have f: "fatal4xx r404"
    by (simp add: fatal4xx_def r404_def)
  have e: "replay [Resolved r404, Resolved (r200 JNull)] (Rejected []) (served net0) = Resolved r404"
    by (simp add: replay_def net0_def)
  from client_error_consumes_attempt
         [where env = "replay [Resolved r404, Resolved (r200 JNull)] (Rejected [])"
            and n = net0 and res = r404 and attempt = 0 and retries = 3 and delayMs = 800,
          OF f e] f
  show ?thesis
    by simp
qed

text \<open>
  Claim C2 as stated fails: a 404 followed by a 200 is not returned as a failure. The
  bulk executor makes a second request after a backoff sleep of 800 ms and returns the
  second response.
\<close>

theorem client_error_retried_counterexample:
  "fatal4xx r404 \<and>
   fetchWithRetry (replay [Resolved r404, Resolved (r200 JNull)] (Rejected [])) MAX_RETRIES 800 net0 =
     (Inr (Some (r200 JNull)), \<lparr>served = 2, slept = [800]\<rparr>)"
  by (simp add: fatal4xx_def r404_def r200_def fetchWithRetry_def fetchWithRetry_loop.simps
      MAX_RETRIES_def replay_def net0_def tryFetch_def ok_def)

section \<open>Exhausted retries\<close>

text \<open>
  Claim C7, as amended. When every attempt fails, the level fetcher's executor returns
  the failure value PageFailed after MAX_RETRIES attempts with a backoff sleep after each;
  the executors of the bulk fetcher and of the detail fetcher make retries + 1 attempts,
  sleep after each but the last, and throw the error of the last attempt to their caller.
\<close>

theorem exhausted_retries_outcome:
  "((\<forall>k\<le>retries. \<exists>e. tryFetch (env (served n + k)) = Inl e) \<longrightarrow>
      (\<exists>e. tryFetch (env (served n + retries)) = Inl e \<and>
           fetchWithRetry env retries delayMs n =
             (Inl e, n\<lparr>served := served n + retries + 1,
                        slept := slept n @ map (\<lambda>i. delayMs * 2 ^ i) [0..<retries]\<rparr>))) \<and>
   ((\<forall>k\<le>retries. \<exists>e. tryFetch_detail (env (served n + k)) = Inl e) \<longrightarrow>
      (\<exists>e. tryFetch_detail (env (served n + retries)) = Inl e \<and>
           fetchWithRetry_detail env retries n =
             (Inl e, n\<lparr>served := served n + retries + 1,
                        slept := slept n @ map (\<lambda>i. 400 * 2 ^ i) [0..<retries]\<rparr>))) \<and>
   ((\<forall>k<MAX_RETRIES_levels. tryPage (env (served n + k)) = None) \<longrightarrow>
      fetchPageWithRetry env n =
        (PageFailed ''Failed after 6 retries'',
         n\<lparr>served := served n + MAX_RETRIES_levels,
            slept := slept n @
              map (\<lambda>i. INITIAL_BACKOFF_MS * 2 ^ i) [0..<MAX_RETRIES_levels]\<rparr>))"
  using fetchWithRetry_loop_all_fail [of 0 retries env n delayMs]
    fetchWithRetry_detail_loop_all_fail [of 0 retries env n]
    fetchPageWithRetry_loop_all_fail [of 0 env n]
  by (simp add: fetchWithRetry_def fetchWithRetry_detail_def fetchPageWithRetry_def)

theorem exhausted_retries_outcome_witness:
  "fetchWithRetry (replay [] (Resolved r503)) 3 800 net0 =
     (Inl (HttpRetryable 503 ''Service Unavailable''), \<lparr>served = 4, slept = [800, 1600, 3200]\<rparr>) \<and>
   fetchWithRetry_detail (replay [] (Resolved r503)) 3 net0 =
     (Inl (HttpRetryable 503 []), \<lparr>served = 4, slept = [400, 800, 1600]\<rparr>) \<and>
   fetchPageWithRetry (replay [] (Resolved r503)) net0 =
     (PageFailed ''Failed after 6 retries'',
      \<lparr>served = 6, slept = [800, 1600, 3200, 6400, 12800, 25600]\<rparr>)"
proof -
  have a: "tryFetch (replay [] (Resolved r503) k) = Inl (HttpRetryable 503 ''Service Unavailable'')"
    for k
    by (simp add: replay_def tryFetch_def r503_def ok_def)
  have b: "tryFetch_detail (replay [] (Resolved r503) k) = Inl (HttpRetryable 503 [])" for k
    by (simp add: replay_def tryFetch_detail_def r503_def ok_def)
  have c: "tryPage (replay [] (Resolved r503) k) = None" for k
    by (simp add: replay_def tryPage_def r503_def)
  have sl3: "[0..<3] = [0, 1, 2]" and sl6: "[0..<6] = [0, 1, 2, 3, 4, 5]"
    by (simp_all add: upt_rec)
  from exhausted_retries_outcome [of 3 "replay [] (Resolved r503)" net0 800]
  show ?thesis
    by (simp add: a b c net0_def MAX_RETRIES_levels_def INITIAL_BACKOFF_MS_def sl3 sl6)
qed

text \<open>
  Claim C7 as stated fails for the bulk fetcher: with every response a 503, the executor
  ends by throwing, not by returning a failure value.
\<close>

theorem exhausted_retries_throw_counterexample:
  "fst (fetchWithRetry (replay [] (Resolved r503)) MAX_RETRIES 800 net0) =
     Inl (HttpRetryable 503 ''Service Unavailable'')"
  by (simp add: r503_def fetchWithRetry_def fetchWithRetry_loop.simps
      MAX_RETRIES_def replay_def net0_def tryFetch_def ok_def)

section \<open>The rate bound\<close>

lemma refill_le: "0 \<le> cap \<Longrightarrow> refill cap tokens \<le> cap"
  by (simp add: refill_def)

lemma tokensAfter_le:
  "0 \<le> cap \<Longrightarrow> tokens \<le> cap \<Longrightarrow> tokensAfter cap tokens es \<le> cap"
proof (induction cap tokens es rule: tokensAfter.induct)
  case (1 cap tokens)
  then show ?case by simp
next
  case (2 cap tokens t es)
  then show ?case by (simp add: refill_le)
next
  case (3 cap tokens t es)
  then show ?case by simp
qed

lemma limiter_append:
  "limiter cap tokens (es @ fs) =
     limiter cap tokens es @ limiter cap (tokensAfter cap tokens es) fs"
  by (induction cap tokens es rule: limiter.induct) simp_all

lemma limiter_bound:
  "0 \<le> cap \<Longrightarrow>
     int (length (limiter cap tokens es)) \<le> max 0 tokens + int (refills es) * cap"
proof (induction cap tokens es rule: limiter.induct)
  case (1 cap tokens)
  then show ?case by (simp add: refills_def)
next
  case (2 cap tokens t es)
  have "max 0 (refill cap tokens) \<le> max 0 tokens + cap"
    using "2.prems" by (simp add: refill_def)
  with 2 show ?case
    by (simp add: refills_def algebra_simps)
next
  case (3 cap tokens t es)
  then show ?case
    by (auto simp: refills_def)
qed

text \<open>
  Claim C8, as amended. Whatever happened before, a stretch of the run that contains k
  refill ticks releases at most (k + 1) * MAX_RPS requests: at most MAX_RPS between two
  consecutive refills, and up to 2 * MAX_RPS in a window that spans one refill. The
  requests of the whole run are those released before, in and after the stretch.
\<close>

theorem rate_bound_per_refill:
  assumes "0 \<le> cap"
  shows "limiter cap cap (before @ stretch @ after) =
           limiter cap cap before
           @ limiter cap (tokensAfter cap cap before) stretch
           @ limiter cap (tokensAfter cap cap (before @ stretch)) after \<and>
         int (length (limiter cap (tokensAfter cap cap before) stretch))
           \<le> (1 + int (refills stretch)) * cap"
proof -
  have "tokensAfter cap cap before \<le> cap"
    using assms by (simp add: tokensAfter_le)
  then have m: "max 0 (tokensAfter cap cap before) \<le> cap"
    using assms by simp
  have "int (length (limiter cap (tokensAfter cap cap before) stretch))
          \<le> max 0 (tokensAfter cap cap before) + int (refills stretch) * cap"
    using assms by (rule limiter_bound)
  also have "\<dots> \<le> cap + int (refills stretch) * cap"
    using m by linarith
  also have "\<dots> = (1 + int (refills stretch)) * cap"
    by (simp add: algebra_simps)
  finally have "int (length (limiter cap (tokensAfter cap cap before) stretch))
          \<le> (1 + int (refills stretch)) * cap" .
  moreover have "limiter cap cap (before @ stretch @ after) =
           limiter cap cap before
           @ limiter cap (tokensAfter cap cap before) stretch
           @ limiter cap (tokensAfter cap cap (before @ stretch)) after"
    using limiter_append [of cap cap "before @ stretch" after]
      limiter_append [of cap cap before stretch]
    by simp
  ultimately show ?thesis by blast
qed

theorem rate_bound_per_refill_witness:
  "(0::int) \<le> MAX_RPS \<and>
   int (length (limiter MAX_RPS (tokensAfter MAX_RPS MAX_RPS [(0, Poll), (10, Poll)])
                  [(20, Poll), (30, Poll), (40, Poll)]))
     \<le> (1 + int (refills [(20, Poll), (30, Poll), (40, Poll)])) * MAX_RPS"
proof -
  have h: "(0::int) \<le> MAX_RPS"
    by (simp add: MAX_RPS_def)
  from rate_bound_per_refill [OF h, of "[(0, Poll), (10, Poll)]" "[(20, Poll), (30, Poll), (40, Poll)]" "[]"] h
  show ?thesis
    by blast
qed

text \<open>
  Claim C8 as stated fails. Three requests are released at 900, 910 and 920 ms, the timer
  refills the bucket at 1000 ms, and three more are released at 1000, 1010 and 1020 ms:
  the window of one second that starts at 900 ms holds six requests with MAX_RPS = 3.
\<close>

theorem rate_window_counterexample:
  "\<not> int (releasedIn 900
        (limiter MAX_RPS MAX_RPS
           [(900, Poll), (910, Poll), (920, Poll), (1000, Refill),
            (1000, Poll), (1010, Poll), (1020, Poll)])) \<le> MAX_RPS"
  by (simp add: releasedIn_def MAX_RPS_def refill_def)

section \<open>Atomic persistence of the checkpoint\<close>

lemma no_write_not_in_place:
  "list_all (\<lambda>op. \<not> isWriteFile op) ops \<Longrightarrow> \<not> writesInPlace target ops"
  by (induction target ops rule: writesInPlace.induct) simp_all

lemma rename_fail:
  "renameError (renames w) = Some code \<Longrightarrow>
     rename renameError src dst w =
       (Some code, w\<lparr>trace := trace w @ [Rename src dst (Some code)], renames := Suc (renames w)\<rparr>)"
  by (simp add: rename_def)

lemma rename_ok:
  "renameError (renames w) = None \<Longrightarrow>
     rename renameError src dst w =
       (None, w\<lparr>disk := (disk w)(dst := disk w src, src := None),
                trace := trace w @ [Rename src dst None], renames := Suc (renames w)\<rparr>)"
  by (simp add: rename_def)

lemma safeWriteMetaFile_loop_inv:
  assumes "tmp \<noteq> META_PATH"
  shows "\<exists>ops. trace (snd (safeWriteMetaFile_loop renameError tmp attempt w)) = trace w @ ops \<and>
           list_all (\<lambda>op. \<not> isWriteFile op) ops \<and>
           (disk (snd (safeWriteMetaFile_loop renameError tmp attempt w)) META_PATH = disk w META_PATH \<or>
            disk (snd (safeWriteMetaFile_loop renameError tmp attempt w)) META_PATH = disk w tmp) \<and>
           ((\<forall>k<5 - attempt. renameError (renames w + k) \<noteq> None) \<longrightarrow>
              disk (snd (safeWriteMetaFile_loop renameError tmp attempt w)) = (disk w)(tmp := None)) \<and>
           renames (snd (safeWriteMetaFile_loop renameError tmp attempt w)) \<le> renames w + (5 - attempt)"
proof (induction "5 - attempt" arbitrary: attempt w)
  case 0
  then have "\<not> attempt < 5" by simp
  then show ?case
    using assms
    by (subst (1 2 3 4 5) safeWriteMetaFile_loop.simps) (auto simp add: unlink_def console_def)
next
  case (Suc d)
  then have lt: "attempt < 5" and d: "d = 5 - Suc attempt" by simp_all
  show ?case
  proof (cases "renameError (renames w)")
    case None
    have nall: "\<not> (\<forall>k<5 - attempt. renameError (renames w + k) \<noteq> None)"
    proof
      assume a: "\<forall>k<5 - attempt. renameError (renames w + k) \<noteq> None"
      have "0 < 5 - attempt" using lt by simp
      with a have "renameError (renames w + 0) \<noteq> None" by blast
      with None show False by simp
    qed
    have eq: "safeWriteMetaFile_loop renameError tmp attempt w =
        (Inr (), w\<lparr>disk := (disk w)(META_PATH := disk w tmp, tmp := None),
                    trace := trace w @ [Rename tmp META_PATH None], renames := Suc (renames w)\<rparr>)"
      using lt None by (subst safeWriteMetaFile_loop.simps) (simp add: rename_ok)
    have r: "Suc (renames w) \<le> renames w + (5 - attempt)"
      using lt by simp
    show ?thesis
      unfolding eq using nall r assms by auto
  next
    case (Some code)
    let ?w1 = "sleep (100 * (attempt + 1)) (w\<lparr>trace := trace w @ [Rename tmp META_PATH (Some code)], renames := Suc (renames w)\<rparr>)"
    show ?thesis
    proof (cases "code = ''EPERM'' \<or> code = ''ENOENT''")
      case True
      have step: "safeWriteMetaFile_loop renameError tmp attempt w = safeWriteMetaFile_loop renameError tmp (Suc attempt) ?w1"
        using lt Some True by (subst safeWriteMetaFile_loop.simps) (simp add: rename_fail)
      from Suc.hyps(1) [OF d, of ?w1]
      obtain ops where ops: "trace (snd (safeWriteMetaFile_loop renameError tmp (Suc attempt) ?w1)) = trace ?w1 @ ops"
        "list_all (\<lambda>op. \<not> isWriteFile op) ops"
        "disk (snd (safeWriteMetaFile_loop renameError tmp (Suc attempt) ?w1)) META_PATH = disk ?w1 META_PATH \<or>
            disk (snd (safeWriteMetaFile_loop renameError tmp (Suc attempt) ?w1)) META_PATH = disk ?w1 tmp"
        "(\<forall>k<5 - Suc attempt. renameError (renames ?w1 + k) \<noteq> None) \<longrightarrow>
              disk (snd (safeWriteMetaFile_loop renameError tmp (Suc attempt) ?w1)) = (disk ?w1)(tmp := None)"
        "renames (snd (safeWriteMetaFile_loop renameError tmp (Suc attempt) ?w1)) \<le> renames ?w1 + (5 - Suc attempt)"
        by blast
      have all: "(\<forall>k<5 - attempt. renameError (renames w + k) \<noteq> None) \<Longrightarrow> (\<forall>k<5 - Suc attempt. renameError (renames ?w1 + k) \<noteq> None)"
      proof (intro allI impI)
        fix k assume a: "\<forall>k<5 - attempt. renameError (renames w + k) \<noteq> None" and k: "k < 5 - Suc attempt"
        from a k have "renameError (renames w + Suc k) \<noteq> None" by (metis Suc_diff_Suc Suc_less_eq lt)
        then show "renameError (renames ?w1 + k) \<noteq> None" by (simp add: sleep_def)
      qed
      show ?thesis
        unfolding step
        apply (rule exI [of _ "Rename tmp META_PATH (Some code) # Sleep (100 * (attempt + 1)) # ops"])
        using ops all lt
        apply (simp add: sleep_def)
        done
    next
      case False
      then show ?thesis
        using lt Some assms
        apply (subst (1 2 3 4 5) safeWriteMetaFile_loop.simps)
        apply (auto simp add: rename_fail unlink_def console_def)
        done
    qed
  qed
qed


lemma saveCountryMeta_loop_inv:
  assumes "tmp \<noteq> metaPath"
  shows "\<exists>ops. trace (saveCountryMeta_loop renameError tmp metaPath i w) = trace w @ ops \<and>
           list_all (\<lambda>op. \<not> isWriteFile op) ops \<and>
           (disk (saveCountryMeta_loop renameError tmp metaPath i w) metaPath = disk w metaPath \<or>
            disk (saveCountryMeta_loop renameError tmp metaPath i w) metaPath = disk w tmp) \<and>
           ((\<forall>k<5 - i. renameError (renames w + k) \<noteq> None) \<longrightarrow>
              disk (saveCountryMeta_loop renameError tmp metaPath i w) = (disk w)(tmp := None)) \<and>
           renames (saveCountryMeta_loop renameError tmp metaPath i w) \<le> renames w + (5 - i)"
proof (induction "5 - i" arbitrary: i w)
  case 0
  then have "\<not> i < 5" by simp
  then show ?case
    using assms
    by (subst (1 2 3 4 5) saveCountryMeta_loop.simps) (auto simp add: unlink_def)
next
  case (Suc d)
  then have lt: "i < 5" and d: "d = 5 - Suc i" by simp_all
  show ?case
  proof (cases "renameError (renames w)")
    case None
    have nall: "\<not> (\<forall>k<5 - i. renameError (renames w + k) \<noteq> None)"
    proof
      assume a: "\<forall>k<5 - i. renameError (renames w + k) \<noteq> None"
      have "0 < 5 - i" using lt by simp
      with a have "renameError (renames w + 0) \<noteq> None" by blast
      with None show False by simp
    qed
    have eq: "saveCountryMeta_loop renameError tmp metaPath i w =
        w\<lparr>disk := (disk w)(metaPath := disk w tmp, tmp := None),
           trace := trace w @ [Rename tmp metaPath None], renames := Suc (renames w)\<rparr>"
      using lt None by (subst saveCountryMeta_loop.simps) (simp add: rename_ok)
    have r: "Suc (renames w) \<le> renames w + (5 - i)"
      using lt by simp
    show ?thesis
      unfolding eq using nall r assms by auto
  next
    case (Some code)
    let ?w1 = "sleep (100 * (i + 1))
        (w\<lparr>trace := trace w @ [Rename tmp metaPath (Some code)], renames := Suc (renames w)\<rparr>)"
    let ?r = "saveCountryMeta_loop renameError tmp metaPath (Suc i) ?w1"
    have step: "saveCountryMeta_loop renameError tmp metaPath i w = ?r"
      using lt Some by (subst saveCountryMeta_loop.simps) (simp add: rename_fail)
    from Suc.hyps(1) [OF d, of ?w1]
    obtain ops where ops: "trace ?r = trace ?w1 @ ops"
      "list_all (\<lambda>op. \<not> isWriteFile op) ops"
      "disk ?r metaPath = disk ?w1 metaPath \<or> disk ?r metaPath = disk ?w1 tmp"
      "(\<forall>k<5 - Suc i. renameError (renames ?w1 + k) \<noteq> None) \<longrightarrow>
         disk ?r = (disk ?w1)(tmp := None)"
      "renames ?r \<le> renames ?w1 + (5 - Suc i)"
      by blast
    have all: "\<forall>k<5 - Suc i. renameError (renames ?w1 + k) \<noteq> None"
      if a: "\<forall>k<5 - i. renameError (renames w + k) \<noteq> None"
    proof (intro allI impI)
      fix k assume k: "k < 5 - Suc i"
      then have "Suc k < 5 - i" using lt by simp
      with a have "renameError (renames w + Suc k) \<noteq> None" by blast
      then show "renameError (renames ?w1 + k) \<noteq> None" by (simp add: sleep_def)
    qed
    show ?thesis
      unfolding step
      apply (rule exI [of _ "Rename tmp metaPath (Some code) # Sleep (100 * (i + 1)) # ops"])
      using ops all lt
      apply (simp add: sleep_def)
      done
  qed
qed

lemma tmpName_neq: "tmpName target suffix \<noteq> target"
  by (simp add: tmpName_def)

lemma safeWriteMetaFile_loop_throw:
  "attempt < 5 \<Longrightarrow> renameError (renames w) = Some code \<Longrightarrow>
   code \<noteq> ''EPERM'' \<Longrightarrow> code \<noteq> ''ENOENT'' \<Longrightarrow>
     safeWriteMetaFile_loop renameError tmp attempt w =
       (Inl code,
        unlink tmp (console ConsoleError
          (w\<lparr>trace := trace w @ [Rename tmp META_PATH (Some code)],
             renames := Suc (renames w)\<rparr>)))"
  by (subst safeWriteMetaFile_loop.simps) (simp add: rename_fail)

lemma failedAttempts_0 [simp]: "failedAttempts r tmp t first a 0 = []"
  by (simp add: failedAttempts_def)

lemma failedAttempts_Suc:
  "failedAttempts r tmp t first a (Suc j) =
     Rename tmp t (r first) # Sleep (100 * (a + 1)) # failedAttempts r tmp t (Suc first) (Suc a) j"
proof -
  have "[0..<Suc j] = 0 # map Suc [0..<j]"
    by (simp add: upt_conv_Cons map_Suc_upt del: upt_Suc)
  then show ?thesis
    by (simp add: failedAttempts_def comp_def del: upt_Suc)
qed

lemma safeWriteMetaFile_loop_retry:
  assumes "a < 5" and "retryable (renameError (renames w))"
  shows "safeWriteMetaFile_loop renameError tmp a w =
           safeWriteMetaFile_loop renameError tmp (Suc a)
             (w\<lparr>trace := trace w @ [Rename tmp META_PATH (renameError (renames w)),
                                     Sleep (100 * (a + 1))],
                renames := Suc (renames w)\<rparr>)"
proof -
  from assms(2) obtain code where c: "renameError (renames w) = Some code"
    "code = ''EPERM'' \<or> code = ''ENOENT''"
    by (auto simp: retryable_def)
  have "rename renameError tmp META_PATH w =
      (Some code, w\<lparr>trace := trace w @ [Rename tmp META_PATH (Some code)],
                     renames := Suc (renames w)\<rparr>)"
    using c(1) by (rule rename_fail)
  moreover have "sleep (100 * (a + 1))
      (w\<lparr>trace := trace w @ [Rename tmp META_PATH (Some code)], renames := Suc (renames w)\<rparr>) =
      w\<lparr>trace := trace w @ [Rename tmp META_PATH (renameError (renames w)),
                                     Sleep (100 * (a + 1))],
                renames := Suc (renames w)\<rparr>"
    using c(1) by (cases w) (simp add: sleep_def)
  ultimately show ?thesis
    using assms(1) c(2)
    by (subst safeWriteMetaFile_loop.simps) (simp del: mult_Suc_right)
qed

lemma safeWriteMetaFile_loop_success:
  assumes "a + j < 5"
    and "\<forall>i<j. retryable (renameError (renames w + i))"
    and "renameError (renames w + j) = None"
  shows "safeWriteMetaFile_loop renameError tmp a w =
           (Inr (), w\<lparr>disk := (disk w)(META_PATH := disk w tmp, tmp := None),
                       trace := trace w @ failedAttempts renameError tmp META_PATH (renames w) a j
                                  @ [Rename tmp META_PATH None],
                       renames := renames w + j + 1\<rparr>)"
  using assms
proof (induction j arbitrary: a w)
  case 0
  then show ?case
    by (subst safeWriteMetaFile_loop.simps) (simp add: rename_ok)
next
  case (Suc j)
  let ?w1 = "w\<lparr>trace := trace w @ [Rename tmp META_PATH (renameError (renames w)),
                                     Sleep (100 * (a + 1))],
                renames := Suc (renames w)\<rparr>"
  have "retryable (renameError (renames w + 0))"
    using Suc.prems(2) by blast
  then have r0: "retryable (renameError (renames w))"
    by simp
  have step: "safeWriteMetaFile_loop renameError tmp a w =
      safeWriteMetaFile_loop renameError tmp (Suc a) ?w1"
    using Suc.prems(1) r0 by (intro safeWriteMetaFile_loop_retry) simp_all
  have a1: "Suc a + j < 5" using Suc.prems(1) by simp
  have a2: "\<forall>i<j. retryable (renameError (renames ?w1 + i))"
  proof (intro allI impI)
    fix i assume "i < j"
    then have "Suc i < Suc j" by simp
    with Suc.prems(2) have "retryable (renameError (renames w + Suc i))" by blast
    then show "retryable (renameError (renames ?w1 + i))" by simp
  qed
  have a3: "renameError (renames ?w1 + j) = None"
    using Suc.prems(3) by simp
  show ?case
    unfolding step Suc.IH [OF a1 a2 a3]
    by (cases w) (auto simp: failedAttempts_Suc fun_eq_iff)
qed


lemma shift_all:
  "\<forall>i<Suc j. P (n + i) \<Longrightarrow> \<forall>i<j. P (Suc n + i)"
proof (intro allI impI)
  fix i assume a: "\<forall>i<Suc j. P (n + i)" and "i < j"
  then have "Suc i < Suc j" by simp
  with a have "P (n + Suc i)" by blast
  then show "P (Suc n + i)" by simp
qed

lemma safeWriteMetaFile_loop_throw_after:
  assumes "a + j < 5"
    and "\<forall>i<j. retryable (renameError (renames w + i))"
    and "renameError (renames w + j) = Some code"
    and "code \<noteq> ''EPERM''" and "code \<noteq> ''ENOENT''"
  shows "safeWriteMetaFile_loop renameError tmp a w =
           (Inl code, w\<lparr>disk := (disk w)(tmp := None),
                        trace := trace w @ failedAttempts renameError tmp META_PATH (renames w) a j
                                   @ [Rename tmp META_PATH (Some code), ConsoleError, Unlink tmp],
                        renames := renames w + j + 1\<rparr>)"
  using assms(1,2,3)
proof (induction j arbitrary: a w)
  case 0
  then show ?case
    using safeWriteMetaFile_loop_throw [of a renameError w code tmp] assms(4,5)
    by (cases w) (auto simp: unlink_def console_def fun_eq_iff)
next
  case (Suc j)
  let ?w1 = "w\<lparr>trace := trace w @ [Rename tmp META_PATH (renameError (renames w)),
                                     Sleep (100 * (a + 1))],
                renames := Suc (renames w)\<rparr>"
  have "retryable (renameError (renames w + 0))"
    using Suc.prems(2) by blast
  then have r0: "retryable (renameError (renames w))"
    by simp
  have step: "safeWriteMetaFile_loop renameError tmp a w =
      safeWriteMetaFile_loop renameError tmp (Suc a) ?w1"
    using Suc.prems(1) r0 by (intro safeWriteMetaFile_loop_retry) simp_all
  have a1: "Suc a + j < 5" using Suc.prems(1) by simp
  have a2: "\<forall>i<j. retryable (renameError (renames ?w1 + i))"
    using shift_all [OF Suc.prems(2)] by simp
  have a3: "renameError (renames ?w1 + j) = Some code"
    using Suc.prems(3) by simp
  show ?case
    unfolding step Suc.IH [OF a1 a2 a3]
    by (cases w) (auto simp: failedAttempts_Suc fun_eq_iff)
qed

lemma safeWriteMetaFile_loop_give_up:
  assumes "a + j = 5"
    and "\<forall>i<j. retryable (renameError (renames w + i))"
  shows "safeWriteMetaFile_loop renameError tmp a w =
           (Inr (), w\<lparr>disk := (disk w)(tmp := None),
                       trace := trace w @ failedAttempts renameError tmp META_PATH (renames w) a j
                                  @ [ConsoleWarn, Unlink tmp],
                       renames := renames w + j\<rparr>)"
  using assms
proof (induction j arbitrary: a w)
  case 0
  then show ?case
    by (subst safeWriteMetaFile_loop.simps) (cases w, auto simp: unlink_def console_def fun_eq_iff)
next
  case (Suc j)
  let ?w1 = "w\<lparr>trace := trace w @ [Rename tmp META_PATH (renameError (renames w)),
                                     Sleep (100 * (a + 1))],
                renames := Suc (renames w)\<rparr>"
  have "retryable (renameError (renames w + 0))"
    using Suc.prems(2) by blast
  then have r0: "retryable (renameError (renames w))"
    by simp
  have step: "safeWriteMetaFile_loop renameError tmp a w =
      safeWriteMetaFile_loop renameError tmp (Suc a) ?w1"
    using Suc.prems(1) r0 by (intro safeWriteMetaFile_loop_retry) simp_all
  have a1: "Suc a + j = 5" using Suc.prems(1) by simp
  have a2: "\<forall>i<j. retryable (renameError (renames ?w1 + i))"
    using shift_all [OF Suc.prems(2)] by simp
  show ?case
    unfolding step Suc.IH [OF a1 a2]
    by (cases w) (auto simp: failedAttempts_Suc fun_eq_iff)
qed

lemma saveCountryMeta_loop_retry:
  assumes "a < 5" and "renameError (renames w) \<noteq> None"
  shows "saveCountryMeta_loop renameError tmp metaPath a w =
           saveCountryMeta_loop renameError tmp metaPath (Suc a)
             (w\<lparr>trace := trace w @ [Rename tmp metaPath (renameError (renames w)),
                                     Sleep (100 * (a + 1))],
                renames := Suc (renames w)\<rparr>)"
proof -
  from assms(2) obtain code where c: "renameError (renames w) = Some code"
    by auto
  have "rename renameError tmp metaPath w =
      (Some code, w\<lparr>trace := trace w @ [Rename tmp metaPath (Some code)],
                     renames := Suc (renames w)\<rparr>)"
    using c by (rule rename_fail)
  moreover have "sleep (100 * (a + 1))
      (w\<lparr>trace := trace w @ [Rename tmp metaPath (Some code)], renames := Suc (renames w)\<rparr>) =
      w\<lparr>trace := trace w @ [Rename tmp metaPath (renameError (renames w)),
                                     Sleep (100 * (a + 1))],
                renames := Suc (renames w)\<rparr>"
    using c by (cases w) (simp add: sleep_def)
  ultimately show ?thesis
    using assms(1)
    by (subst saveCountryMeta_loop.simps) (simp del: mult_Suc_right)
qed

lemma saveCountryMeta_loop_success:
  assumes "a + j < 5"
    and "\<forall>i<j. renameError (renames w + i) \<noteq> None"
    and "renameError (renames w + j) = None"
  shows "saveCountryMeta_loop renameError tmp metaPath a w =
           w\<lparr>disk := (disk w)(metaPath := disk w tmp, tmp := None),
              trace := trace w @ failedAttempts renameError tmp metaPath (renames w) a j
                         @ [Rename tmp metaPath None],
              renames := renames w + j + 1\<rparr>"
  using assms
proof (induction j arbitrary: a w)
  case 0
  then show ?case
    by (subst saveCountryMeta_loop.simps) (simp add: rename_ok)
next
  case (Suc j)
  let ?w1 = "w\<lparr>trace := trace w @ [Rename tmp metaPath (renameError (renames w)),
                                     Sleep (100 * (a + 1))],
                renames := Suc (renames w)\<rparr>"
  have "renameError (renames w + 0) \<noteq> None"
    using Suc.prems(2) by blast
  then have r0: "renameError (renames w) \<noteq> None"
    by simp
  have step: "saveCountryMeta_loop renameError tmp metaPath a w =
      saveCountryMeta_loop renameError tmp metaPath (Suc a) ?w1"
    using Suc.prems(1) r0 by (intro saveCountryMeta_loop_retry) simp_all
  have a1: "Suc a + j < 5" using Suc.prems(1) by simp
  have a2: "\<forall>i<j. renameError (renames ?w1 + i) \<noteq> None"
    using shift_all [OF Suc.prems(2)] by simp
  have a3: "renameError (renames ?w1 + j) = None"
    using Suc.prems(3) by simp
  show ?case
    unfolding step Suc.IH [OF a1 a2 a3]
    by (cases w) (auto simp: failedAttempts_Suc fun_eq_iff)
qed

lemma saveCountryMeta_loop_give_up:
  assumes "a + j = 5"
    and "\<forall>i<j. renameError (renames w + i) \<noteq> None"
  shows "saveCountryMeta_loop renameError tmp metaPath a w =
           w\<lparr>disk := (disk w)(tmp := None),
              trace := trace w @ failedAttempts renameError tmp metaPath (renames w) a j
                         @ [Unlink tmp],
              renames := renames w + j\<rparr>"
  using assms
proof (induction j arbitrary: a w)
  case 0
  then show ?case
    by (subst saveCountryMeta_loop.simps) (cases w, auto simp: unlink_def fun_eq_iff)
next
  case (Suc j)
  let ?w1 = "w\<lparr>trace := trace w @ [Rename tmp metaPath (renameError (renames w)),
                                     Sleep (100 * (a + 1))],
                renames := Suc (renames w)\<rparr>"
  have "renameError (renames w + 0) \<noteq> None"
    using Suc.prems(2) by blast
  then have r0: "renameError (renames w) \<noteq> None"
    by simp
  have step: "saveCountryMeta_loop renameError tmp metaPath a w =
      saveCountryMeta_loop renameError tmp metaPath (Suc a) ?w1"
    using Suc.prems(1) r0 by (intro saveCountryMeta_loop_retry) simp_all
  have a1: "Suc a + j = 5" using Suc.prems(1) by simp
  have a2: "\<forall>i<j. renameError (renames ?w1 + i) \<noteq> None"
    using shift_all [OF Suc.prems(2)] by simp
  show ?case
    unfolding step Suc.IH [OF a1 a2]
    by (cases w) (auto simp: failedAttempts_Suc fun_eq_iff)
qed


lemma saveMeta_via_loop:
  "saveMeta renameError suffix content w =
     (case safeWriteMetaFile_loop renameError (tmpName META_PATH suffix) 0
             (writeFile (tmpName META_PATH suffix) content w) of
        (Inl code, w1) \<Rightarrow> console ConsoleError w1
      | (Inr u, w1) \<Rightarrow> w1)"
  by (simp add: saveMeta_def safeWriteMetaFile_def)

lemma saveMeta_success:
  assumes "j < 5"
    and "\<forall>i<j. retryable (renameError (renames w + i))"
    and "renameError (renames w + j) = None"
  shows "saveMeta renameError suffix content w =
           w\<lparr>disk := (disk w)(META_PATH \<mapsto> content, tmpName META_PATH suffix := None),
              trace := trace w @ WriteFile (tmpName META_PATH suffix) content
                         # failedAttempts renameError (tmpName META_PATH suffix) META_PATH (renames w) 0 j
                         @ [Rename (tmpName META_PATH suffix) META_PATH None],
              renames := renames w + j + 1\<rparr>"
proof -
  let ?tmp = "tmpName META_PATH suffix"
  let ?w1 = "writeFile ?tmp content w"
  have r: "renames ?w1 = renames w"
    by (simp add: writeFile_def)
  have "safeWriteMetaFile_loop renameError ?tmp 0 ?w1 =
      (Inr (), ?w1\<lparr>disk := (disk ?w1)(META_PATH := disk ?w1 ?tmp, ?tmp := None),
                    trace := trace ?w1 @ failedAttempts renameError ?tmp META_PATH (renames ?w1) 0 j
                               @ [Rename ?tmp META_PATH None],
                    renames := renames ?w1 + j + 1\<rparr>)"
    using assms unfolding r [symmetric]
    by (intro safeWriteMetaFile_loop_success) simp_all
  then show ?thesis
    unfolding saveMeta_via_loop
    using tmpName_neq [of META_PATH suffix]
    by (cases w) (auto simp: writeFile_def fun_eq_iff)
qed

lemma saveMeta_throw:
  assumes "j < 5"
    and "\<forall>i<j. retryable (renameError (renames w + i))"
    and "renameError (renames w + j) = Some code"
    and "\<not> retryable (Some code)"
  shows "saveMeta renameError suffix content w =
           w\<lparr>disk := (disk w)(tmpName META_PATH suffix := None),
              trace := trace w @ WriteFile (tmpName META_PATH suffix) content
                         # failedAttempts renameError (tmpName META_PATH suffix) META_PATH (renames w) 0 j
                         @ [Rename (tmpName META_PATH suffix) META_PATH (Some code),
                            ConsoleError, Unlink (tmpName META_PATH suffix), ConsoleError],
              renames := renames w + j + 1\<rparr>"
proof -
  let ?tmp = "tmpName META_PATH suffix"
  let ?w1 = "writeFile ?tmp content w"
  have r: "renames ?w1 = renames w"
    by (simp add: writeFile_def)
  have c: "code \<noteq> ''EPERM''" "code \<noteq> ''ENOENT''"
    using assms(4) by (simp_all add: retryable_def)
  have "safeWriteMetaFile_loop renameError ?tmp 0 ?w1 =
      (Inl code, ?w1\<lparr>disk := (disk ?w1)(?tmp := None),
                    trace := trace ?w1 @ failedAttempts renameError ?tmp META_PATH (renames ?w1) 0 j
                               @ [Rename ?tmp META_PATH (Some code), ConsoleError, Unlink ?tmp],
                    renames := renames ?w1 + j + 1\<rparr>)"
    using assms(1,2,3) c unfolding r [symmetric]
    by (intro safeWriteMetaFile_loop_throw_after) simp_all
  then show ?thesis
    unfolding saveMeta_via_loop
    by (cases w) (auto simp: writeFile_def console_def fun_eq_iff)
qed

lemma saveMeta_give_up:
  assumes "\<forall>i<5. retryable (renameError (renames w + i))"
  shows "saveMeta renameError suffix content w =
           w\<lparr>disk := (disk w)(tmpName META_PATH suffix := None),
              trace := trace w @ WriteFile (tmpName META_PATH suffix) content
                         # failedAttempts renameError (tmpName META_PATH suffix) META_PATH (renames w) 0 5
                         @ [ConsoleWarn, Unlink (tmpName META_PATH suffix)],
              renames := renames w + 5\<rparr>"
proof -
  let ?tmp = "tmpName META_PATH suffix"
  let ?w1 = "writeFile ?tmp content w"
  have r: "renames ?w1 = renames w"
    by (simp add: writeFile_def)
  have "safeWriteMetaFile_loop renameError ?tmp 0 ?w1 =
      (Inr (), ?w1\<lparr>disk := (disk ?w1)(?tmp := None),
                    trace := trace ?w1 @ failedAttempts renameError ?tmp META_PATH (renames ?w1) 0 5
                               @ [ConsoleWarn, Unlink ?tmp],
                    renames := renames ?w1 + 5\<rparr>)"
    using assms unfolding r [symmetric]
    by (intro safeWriteMetaFile_loop_give_up) simp_all
  then show ?thesis
    unfolding saveMeta_via_loop
    by (cases w) (auto simp: writeFile_def fun_eq_iff)
qed

lemma saveCountryMeta_success:
  assumes "j < 5"
    and "\<forall>i<j. renameError (renames w + i) \<noteq> None"
    and "renameError (renames w + j) = None"
  shows "saveCountryMeta renameError suffix metaPath content w =
           w\<lparr>disk := (disk w)(metaPath \<mapsto> content, tmpName metaPath suffix := None),
              trace := trace w @ WriteFile (tmpName metaPath suffix) content
                         # failedAttempts renameError (tmpName metaPath suffix) metaPath (renames w) 0 j
                         @ [Rename (tmpName metaPath suffix) metaPath None],
              renames := renames w + j + 1\<rparr>"
proof -
  let ?tmp = "tmpName metaPath suffix"
  let ?w1 = "writeFile ?tmp content w"
  have r: "renames ?w1 = renames w"
    by (simp add: writeFile_def)
  have "saveCountryMeta_loop renameError ?tmp metaPath 0 ?w1 =
      ?w1\<lparr>disk := (disk ?w1)(metaPath := disk ?w1 ?tmp, ?tmp := None),
                    trace := trace ?w1 @ failedAttempts renameError ?tmp metaPath (renames ?w1) 0 j
                               @ [Rename ?tmp metaPath None],
                    renames := renames ?w1 + j + 1\<rparr>"
    using assms unfolding r [symmetric]
    by (intro saveCountryMeta_loop_success) simp_all
  then show ?thesis
    unfolding saveCountryMeta_def
    using tmpName_neq [of metaPath suffix]
    by (cases w) (auto simp: writeFile_def fun_eq_iff)
qed

lemma saveCountryMeta_give_up:
  assumes "\<forall>i<5. renameError (renames w + i) \<noteq> None"
  shows "saveCountryMeta renameError suffix metaPath content w =
           w\<lparr>disk := (disk w)(tmpName metaPath suffix := None),
              trace := trace w @ WriteFile (tmpName metaPath suffix) content
                         # failedAttempts renameError (tmpName metaPath suffix) metaPath (renames w) 0 5
                         @ [Unlink (tmpName metaPath suffix)],
              renames := renames w + 5\<rparr>"
proof -
  let ?tmp = "tmpName metaPath suffix"
  let ?w1 = "writeFile ?tmp content w"
  have r: "renames ?w1 = renames w"
    by (simp add: writeFile_def)
  have "saveCountryMeta_loop renameError ?tmp metaPath 0 ?w1 =
      ?w1\<lparr>disk := (disk ?w1)(?tmp := None),
                    trace := trace ?w1 @ failedAttempts renameError ?tmp metaPath (renames ?w1) 0 5
                               @ [Unlink ?tmp],
                    renames := renames ?w1 + 5\<rparr>"
    using assms unfolding r [symmetric]
    by (intro saveCountryMeta_loop_give_up) simp_all
  then show ?thesis
    unfolding saveCountryMeta_def
    by (cases w) (auto simp: writeFile_def fun_eq_iff)
qed

text \<open>
  Claim C4, as amended. The bulk fetcher (saveMeta) and the detail fetcher
  (saveCountryMeta) persist the checkpoint through a temporary file beside the target:
  the first operation writes the new content to the temporary file, no operation writes
  the target in place, and the temporary file is then renamed over the target in at
  most five attempts. An attempt that fails (in the bulk fetcher: with the code EPERM or
  ENOENT) is followed by a sleep of 100 * (attempt + 1) milliseconds and by the next
  attempt. The first rename that succeeds, at any of the five attempts, ends the save
  with the new content at the target and no temporary file. When all five attempts
  fail, the temporary file is removed and the target holds its previous content (the
  bulk fetcher logs a warning, the detail fetcher logs nothing). In the bulk fetcher a
  rename that fails with any other code ends the save at once: the error is logged, the
  temporary file is removed and the target holds its previous content. In every case
  the target afterwards holds either its previous content or the new content. The level
  fetcher (saveProgress) writes the progress file in place with a single write.
\<close>

theorem checkpoint_save_through_temp:
  "(let tmp = tmpName META_PATH suffix; w' = saveMeta renameError suffix content w in
      (disk w' META_PATH = disk w META_PATH \<or> disk w' META_PATH = Some content) \<and>
      ((\<forall>k<5. renameError (renames w + k) \<noteq> None) \<longrightarrow> disk w' META_PATH = disk w META_PATH) \<and>
      renames w' \<le> renames w + 5 \<and>
      (\<exists>ops. trace w' = trace w @ WriteFile tmp content # ops \<and>
             \<not> writesInPlace META_PATH ops) \<and>
      (j < 5 \<and> (\<forall>i<j. retryable (renameError (renames w + i))) \<and>
       renameError (renames w + j) = None \<longrightarrow>
         w' = w\<lparr>disk := (disk w)(META_PATH \<mapsto> content, tmp := None),
                 trace := trace w @ WriteFile tmp content
                            # failedAttempts renameError tmp META_PATH (renames w) 0 j
                            @ [Rename tmp META_PATH None],
                 renames := renames w + j + 1\<rparr>) \<and>
      (j < 5 \<and> (\<forall>i<j. retryable (renameError (renames w + i))) \<and>
       renameError (renames w + j) = Some code \<and> \<not> retryable (Some code) \<longrightarrow>
         w' = w\<lparr>disk := (disk w)(tmp := None),
                 trace := trace w @ WriteFile tmp content
                            # failedAttempts renameError tmp META_PATH (renames w) 0 j
                            @ [Rename tmp META_PATH (Some code), ConsoleError, Unlink tmp,
                               ConsoleError],
                 renames := renames w + j + 1\<rparr>) \<and>
      ((\<forall>i<5. retryable (renameError (renames w + i))) \<longrightarrow>
         w' = w\<lparr>disk := (disk w)(tmp := None),
                 trace := trace w @ WriteFile tmp content
                            # failedAttempts renameError tmp META_PATH (renames w) 0 5
                            @ [ConsoleWarn, Unlink tmp],
                 renames := renames w + 5\<rparr>)) \<and>
   (let tmp = tmpName metaPath suffix;
        w' = saveCountryMeta renameError suffix metaPath content w in
      (disk w' metaPath = disk w metaPath \<or> disk w' metaPath = Some content) \<and>
      ((\<forall>k<5. renameError (renames w + k) \<noteq> None) \<longrightarrow> disk w' metaPath = disk w metaPath) \<and>
      renames w' \<le> renames w + 5 \<and>
      (\<exists>ops. trace w' = trace w @ WriteFile tmp content # ops \<and>
             \<not> writesInPlace metaPath ops) \<and>
      (j < 5 \<and> (\<forall>i<j. renameError (renames w + i) \<noteq> None) \<and>
       renameError (renames w + j) = None \<longrightarrow>
         w' = w\<lparr>disk := (disk w)(metaPath \<mapsto> content, tmp := None),
                 trace := trace w @ WriteFile tmp content
                            # failedAttempts renameError tmp metaPath (renames w) 0 j
                            @ [Rename tmp metaPath None],
                 renames := renames w + j + 1\<rparr>) \<and>
      ((\<forall>i<5. renameError (renames w + i) \<noteq> None) \<longrightarrow>
         w' = w\<lparr>disk := (disk w)(tmp := None),
                 trace := trace w @ WriteFile tmp content
                            # failedAttempts renameError tmp metaPath (renames w) 0 5
                            @ [Unlink tmp],
                 renames := renames w + 5\<rparr>)) \<and>
   trace (saveProgress level content w) = trace w @ [WriteFile (progressPathFor level) content] \<and>
   disk (saveProgress level content w) (progressPathFor level) = Some content"
proof -
  let ?tmp = "tmpName META_PATH suffix"
  let ?w1 = "writeFile ?tmp content w"
  let ?r = "safeWriteMetaFile_loop renameError ?tmp 0 ?w1"
  from safeWriteMetaFile_loop_inv
         [where tmp = ?tmp and renameError = renameError and attempt = 0 and w = ?w1,
          OF tmpName_neq]
  obtain ops where ops: "trace (snd ?r) = trace ?w1 @ ops"
    "list_all (\<lambda>op. \<not> isWriteFile op) ops"
    "disk (snd ?r) META_PATH = disk ?w1 META_PATH \<or> disk (snd ?r) META_PATH = disk ?w1 ?tmp"
    "(\<forall>k<5 - 0. renameError (renames ?w1 + k) \<noteq> None) \<longrightarrow> disk (snd ?r) = (disk ?w1)(?tmp := None)"
    "renames (snd ?r) \<le> renames ?w1 + (5 - 0)"
    by (auto simp: META_PATH_def)
  have sm: "saveMeta renameError suffix content w =
      (case fst ?r of Inl code \<Rightarrow> console ConsoleError (snd ?r) | Inr u \<Rightarrow> snd ?r)"
    by (simp add: saveMeta_def safeWriteMetaFile_def split: prod.split sum.split)
  have bulk: "let w' = saveMeta renameError suffix content w in
      (disk w' META_PATH = disk w META_PATH \<or> disk w' META_PATH = Some content) \<and>
      ((\<forall>k<5. renameError (renames w + k) \<noteq> None) \<longrightarrow> disk w' META_PATH = disk w META_PATH) \<and>
      renames w' \<le> renames w + 5 \<and>
      (\<exists>ops. trace w' = trace w @ WriteFile (tmpName META_PATH suffix) content # ops \<and>
             \<not> writesInPlace META_PATH ops)"
  proof (cases "fst ?r")
    case (Inl code)
    have "\<not> writesInPlace META_PATH (ops @ [ConsoleError])"
      using ops(2) by (intro no_write_not_in_place) simp
    then show ?thesis
      using ops tmpName_neq [of META_PATH suffix] Inl
      by (auto simp: sm Let_def console_def writeFile_def)
  next
    case (Inr u)
    have "\<not> writesInPlace META_PATH ops"
      using ops(2) by (intro no_write_not_in_place)
    then show ?thesis
      using ops tmpName_neq [of META_PATH suffix] Inr
      by (auto simp: sm Let_def writeFile_def)
  qed
  let ?tmpd = "tmpName metaPath suffix"
  let ?w1d = "writeFile ?tmpd content w"
  let ?rd = "saveCountryMeta_loop renameError ?tmpd metaPath 0 ?w1d"
  from saveCountryMeta_loop_inv
         [where tmp = ?tmpd and metaPath = metaPath and renameError = renameError and i = 0
            and w = ?w1d, OF tmpName_neq]
  obtain opsd where opsd: "trace ?rd = trace ?w1d @ opsd"
    "list_all (\<lambda>op. \<not> isWriteFile op) opsd"
    "disk ?rd metaPath = disk ?w1d metaPath \<or> disk ?rd metaPath = disk ?w1d ?tmpd"
    "(\<forall>k<5 - 0. renameError (renames ?w1d + k) \<noteq> None) \<longrightarrow> disk ?rd = (disk ?w1d)(?tmpd := None)"
    "renames ?rd \<le> renames ?w1d + (5 - 0)"
    by auto
  have "\<not> writesInPlace metaPath opsd"
    using opsd(2) by (intro no_write_not_in_place)
  then have detail: "let w' = saveCountryMeta renameError suffix metaPath content w in
      (disk w' metaPath = disk w metaPath \<or> disk w' metaPath = Some content) \<and>
      ((\<forall>k<5. renameError (renames w + k) \<noteq> None) \<longrightarrow> disk w' metaPath = disk w metaPath) \<and>
      renames w' \<le> renames w + 5 \<and>
      (\<exists>ops. trace w' = trace w @ WriteFile (tmpName metaPath suffix) content # ops \<and>
             \<not> writesInPlace metaPath ops)"
    using opsd tmpName_neq [of metaPath suffix]
    by (auto simp: saveCountryMeta_def Let_def writeFile_def)
  have levels: "trace (saveProgress level content w) = trace w @ [WriteFile (progressPathFor level) content] \<and>
   disk (saveProgress level content w) (progressPathFor level) = Some content"
    by (simp add: saveProgress_def writeFile_def)
  note new = saveMeta_success [of j renameError w suffix content]
    saveMeta_throw [of j renameError w code suffix content]
    saveMeta_give_up [of renameError w suffix content]
    saveCountryMeta_success [of j renameError w suffix metaPath content]
    saveCountryMeta_give_up [of renameError w suffix metaPath content]
  from bulk detail levels new show ?thesis
    unfolding Let_def by blast
qed

theorem checkpoint_save_through_temp_witness:
  "saveMeta (failsThenOk 2 ''EPERM'') ''1'' ''new'' diskOld =
     \<lparr>disk = [META_PATH \<mapsto> ''new''],
      trace = [WriteFile (tmpName META_PATH ''1'') ''new'',
               Rename (tmpName META_PATH ''1'') META_PATH (Some ''EPERM''), Sleep 100,
               Rename (tmpName META_PATH ''1'') META_PATH (Some ''EPERM''), Sleep 200,
               Rename (tmpName META_PATH ''1'') META_PATH None],
      renames = 3\<rparr> \<and>
   saveMeta (failsThenOk 1 ''EACCES'') ''1'' ''new'' diskOld =
     \<lparr>disk = [META_PATH \<mapsto> ''old''],
      trace = [WriteFile (tmpName META_PATH ''1'') ''new'',
               Rename (tmpName META_PATH ''1'') META_PATH (Some ''EACCES''),
               ConsoleError, Unlink (tmpName META_PATH ''1''), ConsoleError],
      renames = 1\<rparr> \<and>
   disk (saveMeta (alwaysFails ''EPERM'') ''1'' ''new'' diskOld) META_PATH = Some ''old'' \<and>
   trace (saveMeta (alwaysFails ''EPERM'') ''1'' ''new'' diskOld) =
     [WriteFile (tmpName META_PATH ''1'') ''new'',
      Rename (tmpName META_PATH ''1'') META_PATH (Some ''EPERM''), Sleep 100,
      Rename (tmpName META_PATH ''1'') META_PATH (Some ''EPERM''), Sleep 200,
      Rename (tmpName META_PATH ''1'') META_PATH (Some ''EPERM''), Sleep 300,
      Rename (tmpName META_PATH ''1'') META_PATH (Some ''EPERM''), Sleep 400,
      Rename (tmpName META_PATH ''1'') META_PATH (Some ''EPERM''), Sleep 500,
      ConsoleWarn, Unlink (tmpName META_PATH ''1'')] \<and>
   saveCountryMeta (failsThenOk 1 ''EBUSY'') ''1'' META_PATH ''new'' diskOld =
     \<lparr>disk = [META_PATH \<mapsto> ''new''],
      trace = [WriteFile (tmpName META_PATH ''1'') ''new'',
               Rename (tmpName META_PATH ''1'') META_PATH (Some ''EBUSY''), Sleep 100,
               Rename (tmpName META_PATH ''1'') META_PATH None],
      renames = 2\<rparr> \<and>
   disk (saveCountryMeta (alwaysFails ''EBUSY'') ''1'' META_PATH ''new'' diskOld) META_PATH =
     Some ''old''"
proof -
  have tmp: "[META_PATH \<mapsto> x](tmpName META_PATH ''1'' := None) = [META_PATH \<mapsto> x]" for x :: string
    by (auto simp: fun_eq_iff tmpName_def)
  have up: "[0..<5] = [0, 1, 2, 3, 4]" "[0..<2] = [0, 1]"
    by (simp_all add: upt_conv_Cons)
  have a: "saveMeta (failsThenOk 2 ''EPERM'') ''1'' ''new'' diskOld =
     \<lparr>disk = [META_PATH \<mapsto> ''new''],
      trace = [WriteFile (tmpName META_PATH ''1'') ''new'',
               Rename (tmpName META_PATH ''1'') META_PATH (Some ''EPERM''), Sleep 100,
               Rename (tmpName META_PATH ''1'') META_PATH (Some ''EPERM''), Sleep 200,
               Rename (tmpName META_PATH ''1'') META_PATH None],
      renames = 3\<rparr>"
    using checkpoint_save_through_temp
      [where renameError = "failsThenOk 2 ''EPERM''" and suffix = "''1''" and content = "''new''"
         and w = diskOld and j = 2
         and code = "''EIO''"
         and metaPath = META_PATH
         and level = "''1''"]
    by (simp add: Let_def failsThenOk_def diskOld_def retryable_def failedAttempts_def tmp up)
  have b: "saveMeta (failsThenOk 1 ''EACCES'') ''1'' ''new'' diskOld =
     \<lparr>disk = [META_PATH \<mapsto> ''old''],
      trace = [WriteFile (tmpName META_PATH ''1'') ''new'',
               Rename (tmpName META_PATH ''1'') META_PATH (Some ''EACCES''),
               ConsoleError, Unlink (tmpName META_PATH ''1''), ConsoleError],
      renames = 1\<rparr>"
    using checkpoint_save_through_temp
      [where renameError = "failsThenOk 1 ''EACCES''" and suffix = "''1''" and content = "''new''"
         and w = diskOld and j = 0 and code = "''EACCES''"
         and metaPath = META_PATH
         and level = "''1''"]
    by (simp add: Let_def failsThenOk_def diskOld_def retryable_def tmp)
  have c: "saveMeta (alwaysFails ''EPERM'') ''1'' ''new'' diskOld =
     \<lparr>disk = [META_PATH \<mapsto> ''old''],
      trace = [WriteFile (tmpName META_PATH ''1'') ''new'',
      Rename (tmpName META_PATH ''1'') META_PATH (Some ''EPERM''), Sleep 100,
      Rename (tmpName META_PATH ''1'') META_PATH (Some ''EPERM''), Sleep 200,
      Rename (tmpName META_PATH ''1'') META_PATH (Some ''EPERM''), Sleep 300,
      Rename (tmpName META_PATH ''1'') META_PATH (Some ''EPERM''), Sleep 400,
      Rename (tmpName META_PATH ''1'') META_PATH (Some ''EPERM''), Sleep 500,
      ConsoleWarn, Unlink (tmpName META_PATH ''1'')],
      renames = 5\<rparr>"
    using checkpoint_save_through_temp
      [where renameError = "alwaysFails ''EPERM''" and suffix = "''1''" and content = "''new''"
         and w = diskOld
         and j = 0
         and code = "''EIO''"
         and metaPath = META_PATH
         and level = "''1''"]
    by (simp add: Let_def alwaysFails_def diskOld_def retryable_def failedAttempts_def tmp up)
  have d: "saveCountryMeta (failsThenOk 1 ''EBUSY'') ''1'' META_PATH ''new'' diskOld =
     \<lparr>disk = [META_PATH \<mapsto> ''new''],
      trace = [WriteFile (tmpName META_PATH ''1'') ''new'',
               Rename (tmpName META_PATH ''1'') META_PATH (Some ''EBUSY''), Sleep 100,
               Rename (tmpName META_PATH ''1'') META_PATH None],
      renames = 2\<rparr>"
    using checkpoint_save_through_temp
      [where renameError = "failsThenOk 1 ''EBUSY''" and suffix = "''1''" and content = "''new''"
         and w = diskOld and j = 1 and metaPath = META_PATH
         and code = "''EIO''"
         and level = "''1''"]
    by (simp add: Let_def failsThenOk_def diskOld_def failedAttempts_def tmp)
  have e: "disk (saveCountryMeta (alwaysFails ''EBUSY'') ''1'' META_PATH ''new'' diskOld) META_PATH =
     Some ''old''"
    using checkpoint_save_through_temp
      [where renameError = "alwaysFails ''EBUSY''" and suffix = "''1''" and content = "''new''"
         and w = diskOld and metaPath = META_PATH
         and j = 0
         and code = "''EIO''"
         and level = "''1''"]
    by (simp add: Let_def alwaysFails_def diskOld_def tmp)
  show ?thesis
    unfolding a b c d using e by simp
qed

text \<open>
  Claim C4 as stated fails in three ways. The level fetcher writes the progress file
  itself, with no temporary file and no rename. The bulk fetcher does not retry a rename
  that fails with a code other than EPERM and ENOENT (here EACCES): it makes one attempt
  and no sleep. The detail fetcher logs nothing when all five renames fail.
\<close>

theorem checkpoint_in_place_counterexample:
  "writesInPlace (progressPathFor ''1'') (trace (saveProgress ''1'' ''{}'' disk0)) \<and>
   trace (saveMeta (alwaysFails ''EACCES'') ''1'' ''{}'' disk0) =
     [WriteFile (tmpName META_PATH ''1'') ''{}'',
      Rename (tmpName META_PATH ''1'') META_PATH (Some ''EACCES''),
      ConsoleError, Unlink (tmpName META_PATH ''1''), ConsoleError] \<and>
   trace (saveCountryMeta (alwaysFails ''EPERM'') ''1'' META_PATH ''{}'' disk0) =
     [WriteFile (tmpName META_PATH ''1'') ''{}'',
      Rename (tmpName META_PATH ''1'') META_PATH (Some ''EPERM''), Sleep 100,
      Rename (tmpName META_PATH ''1'') META_PATH (Some ''EPERM''), Sleep 200,
      Rename (tmpName META_PATH ''1'') META_PATH (Some ''EPERM''), Sleep 300,
      Rename (tmpName META_PATH ''1'') META_PATH (Some ''EPERM''), Sleep 400,
      Rename (tmpName META_PATH ''1'') META_PATH (Some ''EPERM''), Sleep 500,
      Unlink (tmpName META_PATH ''1'')]"
proof -
  have up: "[0..<5] = [0, 1, 2, 3, 4]"
    by (simp add: upt_conv_Cons)
  have "\<not> retryable (Some ''EACCES'')"
    by (simp add: retryable_def)
  then have a: "trace (saveMeta (alwaysFails ''EACCES'') ''1'' ''{}'' disk0) =
     [WriteFile (tmpName META_PATH ''1'') ''{}'',
      Rename (tmpName META_PATH ''1'') META_PATH (Some ''EACCES''),
      ConsoleError, Unlink (tmpName META_PATH ''1''), ConsoleError]"
    by (subst saveMeta_throw [where j = 0 and code = "''EACCES''"])
       (simp_all add: alwaysFails_def disk0_def)
  have b: "trace (saveCountryMeta (alwaysFails ''EPERM'') ''1'' META_PATH ''{}'' disk0) =
     [WriteFile (tmpName META_PATH ''1'') ''{}'',
      Rename (tmpName META_PATH ''1'') META_PATH (Some ''EPERM''), Sleep 100,
      Rename (tmpName META_PATH ''1'') META_PATH (Some ''EPERM''), Sleep 200,
      Rename (tmpName META_PATH ''1'') META_PATH (Some ''EPERM''), Sleep 300,
      Rename (tmpName META_PATH ''1'') META_PATH (Some ''EPERM''), Sleep 400,
      Rename (tmpName META_PATH ''1'') META_PATH (Some ''EPERM''), Sleep 500,
      Unlink (tmpName META_PATH ''1'')]"
    by (subst saveCountryMeta_give_up)
       (simp_all add: alwaysFails_def disk0_def failedAttempts_def up)
  show ?thesis
    using a b by (simp add: saveProgress_def writeFile_def disk0_def)
qed

section \<open>The pagination driver: general facts\<close>

lemma fetchWithRetry_first_ok:
  "tryFetch (f (served n)) = Inr res \<Longrightarrow>
     fetchWithRetry f retries delayMs n = (Inr (Some res), n\<lparr>served := Suc (served n)\<rparr>)"
  by (simp add: fetchWithRetry_def fetchWithRetry_loop_success)

lemma acceptPage_eq:
  "acceptPage env items (from, seen, w) =
     (from + PAGE_SIZE, snd (dedupFilter items seen),
      persist (w\<lparr>ndjson := appendNdjson (ndjson w) (fst (dedupFilter items seen)),
                 entry := markUpdated (entry w) (from + PAGE_SIZE)
                            (length (fst (dedupFilter items seen))) (now env (clockReads w)),
                 clockReads := Suc (clockReads w)\<rparr>))"
  by (simp add: acceptPage_def Let_def)

lemma fetchLoop_rule:
  assumes fin: "\<And>from seen w n. Q from seen w (None, complete env (w\<lparr>network := n\<rparr>))"
    and left: "\<And>from seen w r n. Q from seen w (r, w\<lparr>network := n\<rparr>)"
    and page: "\<And>from seen w n items r. items \<noteq> [] \<Longrightarrow>
        totalPages (entry w) < MAX_PAGES_PER_LEVEL \<Longrightarrow>
        Q (from + PAGE_SIZE) (snd (dedupFilter items seen))
          (snd (snd (acceptPage env items (from, seen, w\<lparr>network := n\<rparr>)))) r \<Longrightarrow>
        Q from seen w r"
  shows "Q from seen w (fetchLoop env from seen w)"
proof (induction "MAX_PAGES_PER_LEVEL - totalPages (entry w)" arbitrary: "from" seen w
    rule: less_induct)
  case less
  show ?case
  proof (cases "totalPages (entry w) \<ge> MAX_PAGES_PER_LEVEL")
    case True
    have "fetchLoop env from seen w = (None, complete env w)"
      using True by (subst fetchLoop.simps) simp
    then show ?thesis using fin [of "from" seen w "network w"] by simp
  next
    case False
    obtain r n where fr: "fetchWithRetry (fetch env) MAX_RETRIES 800 (network w) = (r, n)"
      by (cases "fetchWithRetry (fetch env) MAX_RETRIES 800 (network w)")
    show ?thesis
    proof (cases r)
      case (Inl err)
      have "fetchLoop env from seen w = (Some err, w\<lparr>network := n\<rparr>)"
        using False fr Inl by (subst fetchLoop.simps) simp
      then show ?thesis using left by simp
    next
      case (Inr ro)
      show ?thesis
      proof (cases ro)
        case None
        have "fetchLoop env from seen w = (Some TypeError, w\<lparr>network := n\<rparr>)"
          using False fr Inr None by (subst fetchLoop.simps) simp
        then show ?thesis using left by simp
      next
        case (Some res)
        show ?thesis
        proof (cases "parsed res")
          case None
          have "fetchLoop env from seen w = (None, w\<lparr>network := n\<rparr>)"
            using False fr Inr Some None by (subst fetchLoop.simps) simp
          then show ?thesis using left by simp
        next
          case (Some j)
          note j = Some
          show ?thesis
          proof (cases "extractItems j = []")
            case True
            have "fetchLoop env from seen w = (None, complete env (w\<lparr>network := n\<rparr>))"
              using False fr Inr \<open>ro = Some res\<close> j True by (subst fetchLoop.simps) simp
            then show ?thesis using fin by simp
          next
            case ne: False
            let ?st = "acceptPage env (extractItems j) (from, seen, w\<lparr>network := n\<rparr>)"
            have st: "?st = (from + PAGE_SIZE, snd (dedupFilter (extractItems j) seen), snd (snd ?st))"
              by (simp add: acceptPage_eq)
            have eq: "fetchLoop env from seen w =
                fetchLoop env (from + PAGE_SIZE) (snd (dedupFilter (extractItems j) seen)) (snd (snd ?st))"
              using False fr Inr \<open>ro = Some res\<close> j ne
              by (subst fetchLoop.simps) (simp add: acceptPage_eq)
            have "totalPages (entry (snd (snd ?st))) = Suc (totalPages (entry w))"
              by (simp add: acceptPage_eq persist_def markUpdated_def)
            then have "MAX_PAGES_PER_LEVEL - totalPages (entry (snd (snd ?st)))
                < MAX_PAGES_PER_LEVEL - totalPages (entry w)"
              using False by simp
            then have "Q (from + PAGE_SIZE) (snd (dedupFilter (extractItems j) seen)) (snd (snd ?st))
                (fetchLoop env (from + PAGE_SIZE) (snd (dedupFilter (extractItems j) seen)) (snd (snd ?st)))"
              by (rule less.hyps)
            then show ?thesis
              unfolding eq [symmetric] using page [OF ne] False by simp
          qed
        qed
      qed
    qed
  qed
qed


lemma lines_append: "lines (w\<lparr>ndjson := appendNdjson (ndjson w) items\<rparr>) = lines w @ items"
  by (simp add: lines_def appendNdjson_def split: option.split)

text \<open>What the filter keeps and what it adds to the set.\<close>

lemma dedupFilter_seen:
  "set (snd (dedupFilter items seen)) =
     set seen \<union> {v \<in> getItemId ` set (fst (dedupFilter items seen)). \<not> falsy v}"
proof (induction items arbitrary: seen)
  case Nil
  then show ?case by simp
next
  case (Cons it its)
  show ?case
    using Cons.IH [of seen] Cons.IH [of "seen @ [getItemId it]"]
    by (auto simp: Let_def)
qed

lemma dedupFilter_tracked:
  "distinct (trackedIds (fst (dedupFilter items seen))) \<and>
   set (trackedIds (fst (dedupFilter items seen))) \<inter> set seen = {}"
proof (induction items arbitrary: seen)
  case Nil
  then show ?case by (simp add: trackedIds_def)
next
  case (Cons it its)
  show ?case
  proof (cases "falsy (getItemId it)")
    case True
    then show ?thesis
      using Cons.IH [of seen] by (simp add: trackedIds_def tracked_def)
  next
    case False
    show ?thesis
    proof (cases "has seen (getItemId it)")
      case True
      then show ?thesis
        using False Cons.IH [of seen] by simp
    next
      case nh: False
      let ?rest = "fst (dedupFilter its (seen @ [getItemId it]))"
      have eq: "fst (dedupFilter (it # its) seen) = it # ?rest"
        using False nh by (simp add: Let_def)
      have ih: "distinct (trackedIds ?rest)"
        "set (trackedIds ?rest) \<inter> set (seen @ [getItemId it]) = {}"
        using Cons.IH [of "seen @ [getItemId it]"] by simp_all
      show ?thesis
      proof (cases "primitive (getItemId it)")
        case True
        then have "getItemId it \<notin> set seen"
          using nh by (simp add: has_def)
        moreover have "getItemId it \<notin> set (trackedIds ?rest)"
          using ih(2) by auto
        moreover have "set (trackedIds ?rest) \<inter> set seen = {}"
          using ih(2) by auto
        ultimately show ?thesis
          unfolding eq using ih(1) by (auto simp: trackedIds_def)
      next
        case np: False
        have "set (trackedIds ?rest) \<inter> set seen = {}"
          using ih(2) by auto
        then show ?thesis
          unfolding eq using ih(1) np by (auto simp: trackedIds_def tracked_def)
      qed
    qed
  qed
qed

lemma dedupFilter_covers:
  "tracked x \<Longrightarrow> x \<in> getItemId ` set items \<Longrightarrow>
     x \<in> set seen \<or> x \<in> getItemId ` set (fst (dedupFilter items seen))"
proof (induction items arbitrary: seen)
  case Nil
  then show ?case by simp
next
  case (Cons it its)
  show ?case
  proof (cases "x = getItemId it")
    case True
    then show ?thesis
      using Cons.prems(1) by (auto simp: Let_def tracked_def has_def)
  next
    case False
    then have "x \<in> getItemId ` set its"
      using Cons.prems(2) by auto
    from Cons.IH [OF Cons.prems(1) this, of seen]
      Cons.IH [OF Cons.prems(1) this, of "seen @ [getItemId it]"] False
    show ?thesis
      by (auto simp: Let_def)
  qed
qed

lemma dedupFilter_null:
  "filter (\<lambda>it. getItemId it = JNull) (fst (dedupFilter items seen)) =
     filter (\<lambda>it. getItemId it = JNull) items"
proof (induction items arbitrary: seen)
  case Nil
  then show ?case by simp
next
  case (Cons it its)
  show ?case
    using Cons.IH [of seen] Cons.IH [of "seen @ [getItemId it]"]
    by (auto simp: Let_def)
qed

text \<open>The offsets handed to saveMeta by the loop never decrease.\<close>

lemma fetchLoop_saved:
  "from' (entry w) = from \<longrightarrow>
     (\<exists>new. saved (snd (fetchLoop env from seen w)) = saved w @ new \<and>
            sorted (map from' new) \<and> (\<forall>e\<in>set new. from \<le> from' e))"
proof (rule fetchLoop_rule [where Q = "\<lambda>from seen w r. from' (entry w) = from \<longrightarrow>
     (\<exists>new. saved (snd r) = saved w @ new \<and>
            sorted (map from' new) \<and> (\<forall>e\<in>set new. from \<le> from' e))"])
  fix "from" :: nat and seen :: "json list" and w :: world and n
  show "from' (entry w) = from \<longrightarrow>
     (\<exists>new. saved (snd (None :: error option, complete env (w\<lparr>network := n\<rparr>))) = saved w @ new \<and>
            sorted (map from' new) \<and> (\<forall>e\<in>set new. from \<le> from' e))"
    by (simp add: complete_def persist_def markComplete_def)
next
  fix "from" :: nat and seen :: "json list" and w :: world and n and r :: "error option"
  show "from' (entry w) = from \<longrightarrow>
     (\<exists>new. saved (snd (r, w\<lparr>network := n\<rparr>)) = saved w @ new \<and>
            sorted (map from' new) \<and> (\<forall>e\<in>set new. from \<le> from' e))"
    by simp
next
  fix "from" :: nat and seen :: "json list" and w :: world and n items
    and r :: "error option \<times> world"
  let ?w1 = "snd (snd (acceptPage env items (from, seen, w\<lparr>network := n\<rparr>)))"
  assume ih: "from' (entry ?w1) = from + PAGE_SIZE \<longrightarrow>
     (\<exists>new. saved (snd r) = saved ?w1 @ new \<and>
            sorted (map from' new) \<and> (\<forall>e\<in>set new. from + PAGE_SIZE \<le> from' e))"
  show "from' (entry w) = from \<longrightarrow>
     (\<exists>new. saved (snd r) = saved w @ new \<and>
            sorted (map from' new) \<and> (\<forall>e\<in>set new. from \<le> from' e))"
  proof
    assume "from' (entry w) = from"
    have e1: "from' (entry ?w1) = from + PAGE_SIZE" and s1: "saved ?w1 = saved w @ [entry ?w1]"
      by (simp_all add: acceptPage_eq persist_def markUpdated_def)
    from ih e1 obtain new where new: "saved (snd r) = saved ?w1 @ new"
      "sorted (map from' new)" "\<forall>e\<in>set new. from + PAGE_SIZE \<le> from' e"
      by blast
    have "saved (snd r) = saved w @ (entry ?w1 # new)"
      using new(1) s1 by simp
    moreover have "sorted (map from' (entry ?w1 # new))"
      using new(2,3) e1 by simp
    moreover have "\<forall>e\<in>set (entry ?w1 # new). from \<le> from' e"
      using new(3) e1 by auto
    ultimately show "\<exists>new. saved (snd r) = saved w @ new \<and>
            sorted (map from' new) \<and> (\<forall>e\<in>set new. from \<le> from' e)"
      by blast
  qed
qed

text \<open>What the loop appends is what it counts, and no tracked identifier is appended
  twice.\<close>

lemma fetchLoop_appended:
  "\<forall>pre. set (trackedIds pre) \<subseteq> set seen \<and> distinct (trackedIds pre) \<longrightarrow>
     (\<exists>app. lines (snd (fetchLoop env from seen w)) = lines w @ app \<and>
            totalItems (entry (snd (fetchLoop env from seen w))) = totalItems (entry w) + length app \<and>
            distinct (trackedIds (pre @ app)))"
proof (rule fetchLoop_rule [where Q = "\<lambda>from seen w r.
   \<forall>pre. set (trackedIds pre) \<subseteq> set seen \<and> distinct (trackedIds pre) \<longrightarrow>
     (\<exists>app. lines (snd r) = lines w @ app \<and>
            totalItems (entry (snd r)) = totalItems (entry w) + length app \<and>
            distinct (trackedIds (pre @ app)))"])
  fix "from" :: nat and seen :: "json list" and w :: world and n
  show "\<forall>pre. set (trackedIds pre) \<subseteq> set seen \<and> distinct (trackedIds pre) \<longrightarrow>
     (\<exists>app. lines (snd (None :: error option, complete env (w\<lparr>network := n\<rparr>))) = lines w @ app \<and>
            totalItems (entry (snd (None :: error option, complete env (w\<lparr>network := n\<rparr>))))
              = totalItems (entry w) + length app \<and>
            distinct (trackedIds (pre @ app)))"
    by (simp add: complete_def persist_def markComplete_def lines_def)
next
  fix "from" :: nat and seen :: "json list" and w :: world and n and r :: "error option"
  show "\<forall>pre. set (trackedIds pre) \<subseteq> set seen \<and> distinct (trackedIds pre) \<longrightarrow>
     (\<exists>app. lines (snd (r, w\<lparr>network := n\<rparr>)) = lines w @ app \<and>
            totalItems (entry (snd (r, w\<lparr>network := n\<rparr>))) = totalItems (entry w) + length app \<and>
            distinct (trackedIds (pre @ app)))"
    by (simp add: lines_def)
next
  fix "from" :: nat and seen :: "json list" and w :: world and n items
    and r :: "error option \<times> world"
  let ?new = "fst (dedupFilter items seen)"
  let ?seen1 = "snd (dedupFilter items seen)"
  let ?w1 = "snd (snd (acceptPage env items (from, seen, w\<lparr>network := n\<rparr>)))"
  assume ih: "\<forall>pre. set (trackedIds pre) \<subseteq> set ?seen1 \<and> distinct (trackedIds pre) \<longrightarrow>
     (\<exists>app. lines (snd r) = lines ?w1 @ app \<and>
            totalItems (entry (snd r)) = totalItems (entry ?w1) + length app \<and>
            distinct (trackedIds (pre @ app)))"
  show "\<forall>pre. set (trackedIds pre) \<subseteq> set seen \<and> distinct (trackedIds pre) \<longrightarrow>
     (\<exists>app. lines (snd r) = lines w @ app \<and>
            totalItems (entry (snd r)) = totalItems (entry w) + length app \<and>
            distinct (trackedIds (pre @ app)))"
  proof (intro allI impI)
    fix pre assume pre: "set (trackedIds pre) \<subseteq> set seen \<and> distinct (trackedIds pre)"
    have l1: "lines ?w1 = lines w @ ?new"
      and t1: "totalItems (entry ?w1) = totalItems (entry w) + length ?new"
      by (simp_all add: acceptPage_eq persist_def markUpdated_def lines_def appendNdjson_def
          split: option.split)
    have sub: "set (trackedIds (pre @ ?new)) \<subseteq> set ?seen1"
      using pre by (auto simp: dedupFilter_seen [of items seen] trackedIds_def tracked_def)
    have dis: "distinct (trackedIds (pre @ ?new))"
      using pre dedupFilter_tracked [of items seen]
      by (auto simp: trackedIds_def)
    from ih sub dis obtain app where app: "lines (snd r) = lines ?w1 @ app"
      "totalItems (entry (snd r)) = totalItems (entry ?w1) + length app"
      "distinct (trackedIds ((pre @ ?new) @ app))"
      by blast
    have "lines (snd r) = lines w @ (?new @ app)"
      using app(1) l1 by simp
    moreover have "totalItems (entry (snd r)) = totalItems (entry w) + length (?new @ app)"
      using app(2) t1 by simp
    moreover have "distinct (trackedIds (pre @ (?new @ app)))"
      using app(3) by simp
    ultimately show "\<exists>app. lines (snd r) = lines w @ app \<and>
            totalItems (entry (snd r)) = totalItems (entry w) + length app \<and>
            distinct (trackedIds (pre @ app))"
      by blast
  qed
qed

lemma dedupFilter_fresh:
  "distinct (map getItemId items) \<Longrightarrow> \<forall>it\<in>set items. getItemId it \<notin> set seen \<Longrightarrow>
     dedupFilter items seen = (items, seen @ filter (\<lambda>v. \<not> falsy v) (map getItemId items))"
proof (induction items arbitrary: seen)
  case Nil
  then show ?case by simp
next
  case (Cons it its)
  show ?case
  proof (cases "falsy (getItemId it)")
    case True
    with Cons show ?thesis by simp
  next
    case False
    have "\<not> has seen (getItemId it)"
      using Cons.prems(2) by (simp add: has_def)
    moreover have "\<forall>x\<in>set its. getItemId x \<notin> set (seen @ [getItemId it])"
    proof
      fix x assume x: "x \<in> set its"
      then have "getItemId x \<noteq> getItemId it"
        using Cons.prems(1) by (metis distinct.simps(2) image_eqI list.simps(9) set_map)
      moreover have "getItemId x \<notin> set seen"
        using Cons.prems(2) x by simp
      ultimately show "getItemId x \<notin> set (seen @ [getItemId it])"
        by simp
    qed
    moreover have "distinct (map getItemId its)"
      using Cons.prems(1) by simp
    ultimately show ?thesis
      using False Cons.IH [of "seen @ [getItemId it]"] by (simp add: Let_def)
  qed
qed

lemma fetchLoop_accept:
  assumes "totalPages (entry w) < MAX_PAGES_PER_LEVEL"
    and "tryFetch (fetch env (served (network w))) = Inr res"
    and "parsed res = Some j" and "extractItems j \<noteq> []"
  shows "fetchLoop env from seen w =
           (case acceptPage env (extractItems j)
                   (from, seen, w\<lparr>network := (network w)\<lparr>served := Suc (served (network w))\<rparr>\<rparr>) of
              (from1, seen1, w1) \<Rightarrow> fetchLoop env from1 seen1 w1)"
  using assms
  by (subst fetchLoop.simps) (simp add: fetchWithRetry_first_ok)

lemma fetchLoop_empty:
  assumes "totalPages (entry w) < MAX_PAGES_PER_LEVEL"
    and "tryFetch (fetch env (served (network w))) = Inr res"
    and "parsed res = Some j" and "extractItems j = []"
  shows "fetchLoop env from seen w =
           (None, complete env (w\<lparr>network := (network w)\<lparr>served := Suc (served (network w))\<rparr>\<rparr>))"
  using assms
  by (subst fetchLoop.simps) (simp add: fetchWithRetry_first_ok)


lemma tryFetch_ok: "ok res \<Longrightarrow> tryFetch (Resolved res) = Inr res"
  by (simp add: tryFetch_def)

lemma acceptPage_fresh:
  assumes "distinct (map getItemId items)" and "\<forall>it\<in>set items. getItemId it \<notin> set seen"
  shows "acceptPage env items (from, seen, w) =
           (from + PAGE_SIZE, seen @ filter (\<lambda>v. \<not> falsy v) (map getItemId items),
            persist (w\<lparr>ndjson := appendNdjson (ndjson w) items,
                       entry := markUpdated (entry w) (from + PAGE_SIZE) (length items)
                                  (now env (clockReads w)),
                       clockReads := Suc (clockReads w)\<rparr>))"
  using dedupFilter_fresh [OF assms]
  by (simp add: acceptPage_def Let_def)


lemma getItemId_item: "getItemId (item k) = JNum k"
  by (simp add: getItemId_def item_def)

lemma extractItems_page: "extractItems (page ks) = map item ks"
  by (simp add: extractItems_def candidates_def page_def)

lemma resume_offset:
  "fst (alignWithFile (restartIfMissing (from' (entry w), w))) =
     (if from' (entry w) = 0 then 0 else inferFromFromFile (ndjson w))"
  by (simp add: alignWithFile_def restartIfMissing_def inferFromFromFile_def persist_def Let_def)



lemma resume_cases:
  "alignWithFile (restartIfMissing (from' (entry w), w)) =
     (if from' (entry w) = 0 then (0, w)
      else if inferFromFromFile (ndjson w) = from' (entry w) then (from' (entry w), w)
      else (inferFromFromFile (ndjson w),
            persist (w\<lparr>entry := (entry w)\<lparr>from' := inferFromFromFile (ndjson w)\<rparr>\<rparr>)))"
proof (cases "from' (entry w) = 0")
  case True
  then show ?thesis
    by (simp add: alignWithFile_def restartIfMissing_def)
next
  case False
  show ?thesis
  proof (cases "ndjson w")
    case None
    then show ?thesis
      using False
      by (simp add: alignWithFile_def restartIfMissing_def inferFromFromFile_def)
  next
    case (Some ls)
    then have "restartIfMissing (from' (entry w), w) = (from' (entry w), w)"
      by (simp add: restartIfMissing_def)
    then show ?thesis
      using False by (simp add: alignWithFile_def Let_def)
  qed
qed

lemma resume_state:
  "\<exists>rs. saved (snd (alignWithFile (restartIfMissing (from' (entry w), w)))) = saved w @ rs \<and>
        (\<forall>e\<in>set rs. from' e = fst (alignWithFile (restartIfMissing (from' (entry w), w)))) \<and>
        from' (entry (snd (alignWithFile (restartIfMissing (from' (entry w), w))))) =
          fst (alignWithFile (restartIfMissing (from' (entry w), w))) \<and>
        ndjson (snd (alignWithFile (restartIfMissing (from' (entry w), w)))) = ndjson w \<and>
        totalItems (entry (snd (alignWithFile (restartIfMissing (from' (entry w), w))))) =
          totalItems (entry w)"
  unfolding resume_cases by (simp add: persist_def)

section \<open>Offsets handed to saveMeta\<close>

text \<open>
  Claim C1, as amended. Within one call of fetchAllFor the offsets handed to saveMeta
  never decrease: the first is the resume offset and each accepted page adds PAGE_SIZE.
  The resume offset itself is 0 when the checkpoint says 0 and otherwise the number of
  lines of the output file rounded down to a multiple of PAGE_SIZE (0 when the file is
  missing); it is persisted as it is, also when it lies below the checkpointed offset.
\<close>

theorem offsets_within_call:
  "fst (alignWithFile (restartIfMissing (from' (entry w), w))) =
     (if from' (entry w) = 0 then 0 else inferFromFromFile (ndjson w)) \<and>
   (\<exists>new. saved (snd (fetchAllFor env w)) = saved w @ new \<and>
          sorted (map from' new) \<and>
          (\<forall>e\<in>set new.
             fst (alignWithFile (restartIfMissing (from' (entry w), w))) \<le> from' e))"
proof -
  obtain r w1 where rw: "alignWithFile (restartIfMissing (from' (entry w), w)) = (r, w1)"
    by (cases "alignWithFile (restartIfMissing (from' (entry w), w))")
  have off: "r = (if from' (entry w) = 0 then 0 else inferFromFromFile (ndjson w))"
    using resume_offset [of w] by (simp add: rw)
  from resume_state [of w] obtain rs where rs: "saved w1 = saved w @ rs"
    "\<forall>e\<in>set rs. from' e = r" "from' (entry w1) = r"
    unfolding rw by auto
  have "\<exists>new. saved (snd (fetchAllFor env w)) = saved w @ new \<and>
          sorted (map from' new) \<and> (\<forall>e\<in>set new. r \<le> from' e)"
  proof (cases "completed (entry w)")
    case True
    then have "saved (snd (fetchAllFor env w)) = saved w @ []"
      by (simp add: fetchAllFor_def)
    then show ?thesis
      by (intro exI [of _ "[]"]) simp
  next
    case False
    have run: "fetchAllFor env w = fetchLoop env r [] w1"
      using False by (simp add: fetchAllFor_def rw)
    from fetchLoop_saved [of w1 r env "[]"] rs(3)
    obtain new where new: "saved (snd (fetchLoop env r [] w1)) = saved w1 @ new"
      "sorted (map from' new)" "\<forall>e\<in>set new. r \<le> from' e"
      by blast
    have a: "saved (snd (fetchAllFor env w)) = saved w @ (rs @ new)"
      using run rs(1) new(1) by simp
    have "sorted (map from' rs)"
      using rs(2) by (induction rs) auto
    then have b: "sorted (map from' (rs @ new))"
      using rs(2) new(2,3) by (auto simp: sorted_append)
    have c: "\<forall>e\<in>set (rs @ new). r \<le> from' e"
      using rs(2) new(3) by auto
    show ?thesis
      using a b c by (intro exI [of _ "rs @ new"]) simp
  qed
  then show ?thesis
    unfolding rw fst_conv using off by simp
qed


theorem offsets_within_call_witness:
  "sorted (map from' (saved (snd (fetchAllFor envPages world0))))"
proof -
  from offsets_within_call [of world0 envPages]
  obtain new where "saved (snd (fetchAllFor envPages world0)) = saved world0 @ new"
    and "sorted (map from' new)"
    by blast
  moreover have "saved world0 = []"
    by (simp add: world0_def)
  ultimately show ?thesis by simp
qed

lemma fetchLoop_throw:
  assumes "totalPages (entry w) < MAX_PAGES_PER_LEVEL"
    and "fetchWithRetry (fetch env) MAX_RETRIES 800 (network w) = (Inl e, n)"
  shows "fetchLoop env from seen w = (Some e, w\<lparr>network := n\<rparr>)"
  using assms by (subst fetchLoop.simps) simp

lemma envDown_fetch:
  "fetchWithRetry (fetch envDown) MAX_RETRIES 800 n =
     (Inl (FetchError ''ECONNRESET''),
      n\<lparr>served := Suc (Suc (Suc (Suc (served n)))), slept := slept n @ [800, 1600, 3200]\<rparr>)"
  by (simp add: fetchWithRetry_def fetchWithRetry_loop.simps MAX_RETRIES_def tryFetch_def
      envDown_def replay_def)

text \<open>
  Claim C1 as stated fails across a restart. With a checkpointed offset of 20, the
  missing-file restart persists 0, and the realignment with a file of 12 lines persists 10.
\<close>

theorem offset_reset_counterexample:
  "from' (entry worldMissing) = 20 \<and>
   map from' (saved (snd (fetchAllFor envDown worldMissing))) = [0] \<and>
   from' (entry worldShort) = 20 \<and>
   map from' (saved (snd (fetchAllFor envDown worldShort))) = [10]"
proof -
  have m: "alignWithFile (restartIfMissing (from' (entry worldMissing), worldMissing)) =
      (0, persist (worldMissing\<lparr>entry := (entry worldMissing)\<lparr>from' := 0\<rparr>\<rparr>))"
    by (simp add: resume_cases) (simp add: worldMissing_def inferFromFromFile_def)
  have s: "alignWithFile (restartIfMissing (from' (entry worldShort), worldShort)) =
      (10, persist (worldShort\<lparr>entry := (entry worldShort)\<lparr>from' := 10\<rparr>\<rparr>))"
    by (simp add: resume_cases) (simp add: worldShort_def inferFromFromFile_def PAGE_SIZE_def)
  have nc: "\<not> completed (entry worldMissing)" "\<not> completed (entry worldShort)"
    by (simp_all add: worldMissing_def worldShort_def getMeta_def)
  have tp: "totalPages (entry (persist (worldMissing\<lparr>entry := (entry worldMissing)\<lparr>from' := 0\<rparr>\<rparr>)))
      < MAX_PAGES_PER_LEVEL"
    "totalPages (entry (persist (worldShort\<lparr>entry := (entry worldShort)\<lparr>from' := 10\<rparr>\<rparr>)))
      < MAX_PAGES_PER_LEVEL"
    by (simp_all add: worldMissing_def worldShort_def persist_def MAX_PAGES_PER_LEVEL_def)
  have "map from' (saved (snd (fetchAllFor envDown worldMissing))) = [0]"
    using nc(1)
    by (simp add: fetchAllFor_def m fetchLoop_throw [OF tp(1) envDown_fetch])
       (simp add: persist_def worldMissing_def)
  moreover have "map from' (saved (snd (fetchAllFor envDown worldShort))) = [10]"
    using nc(2)
    by (simp add: fetchAllFor_def s fetchLoop_throw [OF tp(2) envDown_fetch])
       (simp add: persist_def worldShort_def)
  moreover have "from' (entry worldMissing) = 20" "from' (entry worldShort) = 20"
    by (simp_all add: worldMissing_def worldShort_def)
  ultimately show ?thesis by blast
qed

section \<open>Items without an identifier\<close>

text \<open>
  Claim C10. The filter of an accepted page keeps every item whose identifier is null,
  each as often as the page holds it and whatever the seen set contains; what the filter
  keeps is what acceptPage appends to the output file. Two equal items without an
  identifier are both appended.
\<close>

theorem null_identifier_bypasses_dedup:
  "filter (\<lambda>it. getItemId it = JNull) (fst (dedupFilter items seen)) =
     filter (\<lambda>it. getItemId it = JNull) items \<and>
   lines (snd (snd (acceptPage env items (from, seen, w)))) =
     lines w @ fst (dedupFilter items seen) \<and>
   fst (dedupFilter [JObj [(''title'', JStr ''a'')], JObj [(''title'', JStr ''a'')]] seen) =
     [JObj [(''title'', JStr ''a'')], JObj [(''title'', JStr ''a'')]]"
proof -
  have "lines (snd (snd (acceptPage env items (from, seen, w)))) =
      lines w @ fst (dedupFilter items seen)"
    by (simp add: acceptPage_eq persist_def lines_def appendNdjson_def split: option.split)
  moreover have "fst (dedupFilter [JObj [(''title'', JStr ''a'')], JObj [(''title'', JStr ''a'')]] seen) =
     [JObj [(''title'', JStr ''a'')], JObj [(''title'', JStr ''a'')]]"
    by (simp add: getItemId_def)
  ultimately show ?thesis
    using dedupFilter_null [of items seen] by blast
qed

theorem null_identifier_bypasses_dedup_witness:
  "lines (snd (snd (acceptPage envDown
      [JObj [(''title'', JStr ''a'')], JObj [(''title'', JStr ''a'')]] (0, [], world0)))) =
     [JObj [(''title'', JStr ''a'')], JObj [(''title'', JStr ''a'')]]"
  using null_identifier_bypasses_dedup
     [of "[JObj [(''title'', JStr ''a'')], JObj [(''title'', JStr ''a'')]]" "[]" envDown 0 world0]
  by (simp add: lines_def world0_def)


section \<open>The scenario of pages of 10, 10, 5 and 0 items\<close>

text \<open>
  Claim C5. A scope starts at offset 0 with no page counted; the source answers four
  requests with pages of 10, 10, 5 and 0 items, no identifier occurring twice. Then
  fetchAllFor returns normally with totalItems = 25, completed = true and from = 30 (three
  pages counted); the last save holds this entry, and the 25 items are appended in order.
\<close>

theorem pages_10_10_5_0:
  assumes fresh: "from' (entry w) = 0" "\<not> completed (entry w)"
      "totalPages (entry w) = 0" "totalItems (entry w) = 0"
    and r1: "fetch env (served (network w)) = Resolved res1" "ok res1" "parsed res1 = Some j1"
      "length (extractItems j1) = 10"
    and r2: "fetch env (served (network w) + 1) = Resolved res2" "ok res2" "parsed res2 = Some j2"
      "length (extractItems j2) = 10"
    and r3: "fetch env (served (network w) + 2) = Resolved res3" "ok res3" "parsed res3 = Some j3"
      "length (extractItems j3) = 5"
    and r4: "fetch env (served (network w) + 3) = Resolved res4" "ok res4" "parsed res4 = Some j4"
      "length (extractItems j4) = 0"
    and nodup: "distinct (map getItemId (extractItems j1 @ extractItems j2 @ extractItems j3))"
  shows "fst (fetchAllFor env w) = None \<and>
         totalItems (entry (snd (fetchAllFor env w))) = 25 \<and>
         completed (entry (snd (fetchAllFor env w))) \<and>
         from' (entry (snd (fetchAllFor env w))) = 30 \<and>
         totalPages (entry (snd (fetchAllFor env w))) = 3 \<and>
         last (saved (snd (fetchAllFor env w))) = entry (snd (fetchAllFor env w)) \<and>
         lines (snd (fetchAllFor env w)) =
           lines w @ extractItems j1 @ extractItems j2 @ extractItems j3"
proof -
  let ?p1 = "extractItems j1" and ?p2 = "extractItems j2" and ?p3 = "extractItems j3"
  let ?ids = "\<lambda>items. filter (\<lambda>v. \<not> falsy v) (map getItemId items)"
  have d1: "distinct (map getItemId ?p1)" and d2: "distinct (map getItemId ?p2)"
    and d3: "distinct (map getItemId ?p3)"
    and s2: "\<forall>it\<in>set ?p2. getItemId it \<notin> set ([] @ ?ids ?p1)"
    and s3: "\<forall>it\<in>set ?p3. getItemId it \<notin> set (([] @ ?ids ?p1) @ ?ids ?p2)"
    using nodup by auto
  have ne: "?p1 \<noteq> []" "?p2 \<noteq> []" "?p3 \<noteq> []" "extractItems j4 = []"
    using r1(4) r2(4) r3(4) r4(4) by auto
  define w1 where "w1 = persist (w\<lparr>network := (network w)\<lparr>served := Suc (served (network w))\<rparr>,
      ndjson := appendNdjson (ndjson w) ?p1,
      entry := markUpdated (entry w) (0 + PAGE_SIZE) (length ?p1) (now env (clockReads w)),
      clockReads := Suc (clockReads w)\<rparr>)"
  define w2 where "w2 = persist (w1\<lparr>network := (network w1)\<lparr>served := Suc (served (network w1))\<rparr>,
      ndjson := appendNdjson (ndjson w1) ?p2,
      entry := markUpdated (entry w1) (0 + PAGE_SIZE + PAGE_SIZE) (length ?p2) (now env (clockReads w1)),
      clockReads := Suc (clockReads w1)\<rparr>)"
  define w3 where "w3 = persist (w2\<lparr>network := (network w2)\<lparr>served := Suc (served (network w2))\<rparr>,
      ndjson := appendNdjson (ndjson w2) ?p3,
      entry := markUpdated (entry w2) (0 + PAGE_SIZE + PAGE_SIZE + PAGE_SIZE) (length ?p3) (now env (clockReads w2)),
      clockReads := Suc (clockReads w2)\<rparr>)"
  define w4 where "w4 = complete env (w3\<lparr>network := (network w3)\<lparr>served := Suc (served (network w3))\<rparr>\<rparr>)"
  have start: "fetchAllFor env w = fetchLoop env 0 [] w"
    using fresh by (simp add: fetchAllFor_def restartIfMissing_def alignWithFile_def)
  have step1: "fetchLoop env 0 [] w = fetchLoop env (0 + PAGE_SIZE) ([] @ ?ids ?p1) w1"
    using fetchLoop_accept [of w env res1 j1 0 "[]"] fresh r1 ne
      acceptPage_fresh [OF d1, of "[]" env 0]
    by (simp add: tryFetch_ok MAX_PAGES_PER_LEVEL_def w1_def)
  have n1: "served (network w1) = served (network w) + 1" "totalPages (entry w1) = 1"
    using fresh by (simp_all add: w1_def persist_def markUpdated_def)
  have step2: "fetchLoop env (0 + PAGE_SIZE) ([] @ ?ids ?p1) w1 =
      fetchLoop env (0 + PAGE_SIZE + PAGE_SIZE) (([] @ ?ids ?p1) @ ?ids ?p2) w2"
    using fetchLoop_accept [of w1 env res2 j2 "0 + PAGE_SIZE" "[] @ ?ids ?p1"] n1 r2 ne
      acceptPage_fresh [OF d2 s2, of env "0 + PAGE_SIZE"]
    by (simp add: tryFetch_ok MAX_PAGES_PER_LEVEL_def w2_def)
  have n2: "served (network w2) = served (network w) + 2" "totalPages (entry w2) = 2"
    using n1 by (simp_all add: w2_def persist_def markUpdated_def)
  have step3: "fetchLoop env (0 + PAGE_SIZE + PAGE_SIZE) (([] @ ?ids ?p1) @ ?ids ?p2) w2 =
      fetchLoop env (0 + PAGE_SIZE + PAGE_SIZE + PAGE_SIZE) ((([] @ ?ids ?p1) @ ?ids ?p2) @ ?ids ?p3) w3"
    using fetchLoop_accept [of w2 env res3 j3 "0 + PAGE_SIZE + PAGE_SIZE" "([] @ ?ids ?p1) @ ?ids ?p2"] n2 r3 ne
      acceptPage_fresh [OF d3 s3, of env "0 + PAGE_SIZE + PAGE_SIZE"]
    by (simp add: tryFetch_ok MAX_PAGES_PER_LEVEL_def w3_def)
  have n3: "served (network w3) = served (network w) + 3" "totalPages (entry w3) = 3"
    using n2 by (simp_all add: w3_def persist_def markUpdated_def)
  have step4: "fetchLoop env (0 + PAGE_SIZE + PAGE_SIZE + PAGE_SIZE) ((([] @ ?ids ?p1) @ ?ids ?p2) @ ?ids ?p3) w3 = (None, w4)"
    using fetchLoop_empty [of w3 env res4 j4] n3 r4 ne
    by (simp add: tryFetch_ok MAX_PAGES_PER_LEVEL_def w4_def)
  have run: "fetchAllFor env w = (None, w4)"
    by (simp only: start step1 step2 step3 step4)
  have e4: "totalItems (entry w4) = 25" "completed (entry w4)" "from' (entry w4) = 30"
      "totalPages (entry w4) = 3"
    using fresh r1(4) r2(4) r3(4)
    by (simp_all add: w4_def w3_def w2_def w1_def complete_def persist_def markUpdated_def
        markComplete_def PAGE_SIZE_def)
  have l4: "lines w4 = lines w @ ?p1 @ ?p2 @ ?p3"
    by (simp add: w4_def w3_def w2_def w1_def complete_def persist_def lines_def appendNdjson_def ne
        split: option.split)
  have s4: "last (saved w4) = entry w4"
    by (simp add: w4_def complete_def persist_def)
  show ?thesis
    unfolding run using e4 l4 s4 by simp
qed



theorem pages_10_10_5_0_witness:
  "fst (fetchAllFor envPages world0) = None \<and>
   totalItems (entry (snd (fetchAllFor envPages world0))) = 25 \<and>
   completed (entry (snd (fetchAllFor envPages world0))) \<and>
   from' (entry (snd (fetchAllFor envPages world0))) = 30"
proof -
  have "fst (fetchAllFor envPages world0) = None \<and>
         totalItems (entry (snd (fetchAllFor envPages world0))) = 25 \<and>
         completed (entry (snd (fetchAllFor envPages world0))) \<and>
         from' (entry (snd (fetchAllFor envPages world0))) = 30 \<and>
         totalPages (entry (snd (fetchAllFor envPages world0))) = 3 \<and>
         last (saved (snd (fetchAllFor envPages world0))) = entry (snd (fetchAllFor envPages world0)) \<and>
         lines (snd (fetchAllFor envPages world0)) =
           lines world0 @ extractItems (page [1, 2, 3, 4, 5, 6, 7, 8, 9, 10])
             @ extractItems (page [11, 12, 13, 14, 15, 16, 17, 18, 19, 20])
             @ extractItems (page [21, 22, 23, 24, 25])"
    by (rule pages_10_10_5_0
          [where ?res1.0 = "r200 (page [1, 2, 3, 4, 5, 6, 7, 8, 9, 10])"
             and ?res2.0 = "r200 (page [11, 12, 13, 14, 15, 16, 17, 18, 19, 20])"
             and ?res3.0 = "r200 (page [21, 22, 23, 24, 25])"
             and ?res4.0 = "r200 (page [])"
             and ?j1.0 = "page [1, 2, 3, 4, 5, 6, 7, 8, 9, 10]"
             and ?j2.0 = "page [11, 12, 13, 14, 15, 16, 17, 18, 19, 20]"
             and ?j3.0 = "page [21, 22, 23, 24, 25]"
             and ?j4.0 = "page []"])
       (simp_all add: world0_def envPages_def getMeta_def net0_def replay_def r200_def ok_def
          extractItems_page getItemId_item comp_def)
  then show ?thesis by blast
qed


section \<open>The level fetcher: general facts\<close>

lemma has_mono: "has s u \<Longrightarrow> set s \<subseteq> set s' \<Longrightarrow> has s' u"
  by (auto simp: has_def)

lemma has_foldl_setAdd:
  "has (foldl setAdd s xs) u = (has s u \<or> (primitive u \<and> u \<in> set xs))"
proof (induction xs arbitrary: s)
  case Nil
  then show ?case by simp
next
  case (Cons x xs)
  show ?case
    unfolding foldl_Cons Cons.IH
    by (auto simp: setAdd_def has_def)
qed

lemma has_loadIndex:
  "has (loadIndex (Some (JArr xs))) u = (primitive u \<and> u \<in> set xs)"
  by (simp add: loadIndex_def newSet_def has_foldl_setAdd) (simp add: has_def)

lemma appendUnique_new:
  "\<forall>c\<in>set (fst (appendUnique courses uriSet)).
     \<exists>u. courseUri c = Some u \<and> \<not> falsy u \<and> \<not> has uriSet u"
proof (induction courses arbitrary: uriSet)
  case Nil
  then show ?case by simp
next
  case (Cons c cs)
  show ?case
  proof (cases "courseUri c")
    case None
    then show ?thesis using Cons.IH [of uriSet] by simp
  next
    case (Some u)
    have later: "\<forall>c\<in>set (fst (appendUnique cs (uriSet @ [u]))).
        \<exists>v. courseUri c = Some v \<and> \<not> falsy v \<and> \<not> has uriSet v"
    proof
      fix d assume "d \<in> set (fst (appendUnique cs (uriSet @ [u])))"
      with Cons.IH [of "uriSet @ [u]"]
      obtain v where v: "courseUri d = Some v" "\<not> falsy v" "\<not> has (uriSet @ [u]) v"
        by blast
      have "\<not> has uriSet v"
        using v(3) has_mono [of uriSet v "uriSet @ [u]"] by auto
      with v show "\<exists>v. courseUri d = Some v \<and> \<not> falsy v \<and> \<not> has uriSet v"
        by blast
    qed
    show ?thesis
      using Some Cons.IH [of uriSet] later by simp
  qed
qed

lemma coursesLines_simps [simp]:
  "coursesLines (saveIndex s st) = coursesLines st"
  "coursesLines (writeProgress a b st) = coursesLines st"
  "coursesLines (regenerateFinalJson a st) = coursesLines st"
  "coursesLines (st\<lparr>levelNet := n\<rparr>) = coursesLines st"
  by (simp_all add: coursesLines_def saveIndex_def writeProgress_def regenerateFinalJson_def
      split: option.split)

lemma progressFile_simps [simp]:
  "progressFile (saveIndex s st) = progressFile st"
  "progressFile (writeProgress a b st) = Some (a, b)"
  "progressFile (regenerateFinalJson a st) = progressFile st"
  by (simp_all add: saveIndex_def writeProgress_def regenerateFinalJson_def split: option.split)

lemma processLevel_loop_notarray:
  assumes "fetchPageWithRetry f (levelNet st) = (pr, n)" and "pr = PageOk data code"
    and "data \<noteq> JNull"
    and "\<not> (\<exists>courses. getProp (Some data) ''courses'' = Some (JArr courses))"
  shows "processLevel_loop (Suc fuel) f from saved0 uriSet st =
           Some (None, saveIndex uriSet (writeProgress from saved0 (st\<lparr>levelNet := n\<rparr>)))"
proof (cases "getProp (Some data) ''courses''")
  case None
  then show ?thesis using assms by simp
next
  case (Some v)
  then show ?thesis using assms by (cases v) simp_all
qed

lemma count_tracked_once:
  "distinct (trackedIds xs) \<Longrightarrow> tracked x \<Longrightarrow> x \<in> getItemId ` set xs \<Longrightarrow>
     count_list (map getItemId xs) x = 1"
proof (induction xs)
  case Nil
  then show ?case by simp
next
  case (Cons a xs)
  show ?case
  proof (cases "getItemId a = x")
    case True
    then have "x \<notin> set (trackedIds xs)"
      using Cons.prems(1,2) by (simp add: trackedIds_def)
    then have "x \<notin> getItemId ` set xs"
      using Cons.prems(2) by (auto simp: trackedIds_def)
    then have "count_list (map getItemId xs) x = 0"
      by (simp add: count_list_0_iff)
    then show ?thesis using True by simp
  next
    case False
    then have "x \<in> getItemId ` set xs"
      using Cons.prems(3) by auto
    moreover have "distinct (trackedIds xs)"
      using Cons.prems(1) by (simp add: trackedIds_def split: if_splits)
    ultimately show ?thesis
      using Cons.IH Cons.prems(2) False by auto
  qed
qed

lemma fetchAllFor_appended:
  "\<exists>app. lines (snd (fetchAllFor env w)) = lines w @ app \<and>
         totalItems (entry (snd (fetchAllFor env w))) = totalItems (entry w) + length app \<and>
         distinct (trackedIds app)"
proof (cases "completed (entry w)")
  case True
  then have "fetchAllFor env w = (None, w)"
    by (simp add: fetchAllFor_def)
  then show ?thesis
    by (intro exI [of _ "[]"]) (simp add: trackedIds_def)
next
  case False
  obtain r w1 where rw: "alignWithFile (restartIfMissing (from' (entry w), w)) = (r, w1)"
    by (cases "alignWithFile (restartIfMissing (from' (entry w), w))")
  have run: "fetchAllFor env w = fetchLoop env r [] w1"
    using False by (simp add: fetchAllFor_def rw)
  have same: "lines w1 = lines w" "totalItems (entry w1) = totalItems (entry w)"
    using resume_state [of w] unfolding rw by (auto simp: lines_def)
  have "set (trackedIds []) \<subseteq> set [] \<and> distinct (trackedIds [])"
    by (simp add: trackedIds_def)
  with fetchLoop_appended [of "[]" env r w1]
  obtain app where "lines (snd (fetchLoop env r [] w1)) = lines w1 @ app"
    "totalItems (entry (snd (fetchLoop env r [] w1))) = totalItems (entry w1) + length app"
    "distinct (trackedIds ([] @ app))"
    by blast
  then show ?thesis
    unfolding run same by (intro exI [of _ app]) simp
qed

lemma acceptPage_lines:
  "lines (snd (snd (acceptPage env items (from, seen, w)))) = lines w @ fst (dedupFilter items seen) \<and>
   totalItems (entry (snd (snd (acceptPage env items (from, seen, w))))) =
     totalItems (entry w) + length (fst (dedupFilter items seen))"
  by (simp add: acceptPage_eq persist_def markUpdated_def lines_def appendNdjson_def
      split: option.split)

lemma trackedUris_append: "trackedUris (xs @ ys) = trackedUris xs @ trackedUris ys"
  by (induction xs) (simp_all split: option.split)

lemma trackedUris_tracked: "u \<in> set (trackedUris cs) \<Longrightarrow> tracked u"
  by (induction cs) (auto split: option.splits if_splits)

lemma trackedUris_mem:
  "u \<in> set (trackedUris cs) = (tracked u \<and> (\<exists>c\<in>set cs. courseUri c = Some u))"
  by (induction cs) (auto split: option.splits if_splits)

lemma has_snoc: "has (s @ [u]) v = (has s v \<or> (primitive v \<and> v = u))"
  by (auto simp: has_def)

text \<open>What one page adds: the tracked uris of the courses written are pairwise different
  and not in the set before, and the set afterwards finds what it found before and them.\<close>

lemma appendUnique_tracked:
  "distinct (trackedUris (fst (appendUnique cs s))) \<and>
   (\<forall>u\<in>set (trackedUris (fst (appendUnique cs s))). \<not> has s u) \<and>
   (\<forall>u. has (snd (appendUnique cs s)) u =
          (has s u \<or> u \<in> set (trackedUris (fst (appendUnique cs s)))))"
proof (induction cs arbitrary: s)
  case Nil
  then show ?case by simp
next
  case (Cons c cs)
  show ?case
  proof (cases "courseUri c")
    case None
    then show ?thesis using Cons.IH [of s] by simp
  next
    case (Some u)
    show ?thesis
    proof (cases "falsy u \<or> has s u")
      case True
      then show ?thesis using Some Cons.IH [of s] by auto
    next
      case False
      let ?new = "fst (appendUnique cs (s @ [u]))"
      have eq: "appendUnique (c # cs) s = (c # ?new, snd (appendUnique cs (s @ [u])))"
        using Some False by simp
      have tu: "trackedUris (c # ?new) =
          (if primitive u then u # trackedUris ?new else trackedUris ?new)"
        using Some False by (simp add: tracked_def)
      from Cons.IH [of "s @ [u]"] have ih:
        "distinct (trackedUris ?new)"
        "\<forall>v\<in>set (trackedUris ?new). \<not> has (s @ [u]) v"
        "\<forall>v. has (snd (appendUnique cs (s @ [u]))) v =
              (has (s @ [u]) v \<or> v \<in> set (trackedUris ?new))"
        by blast+
      let ?T = "if primitive u then u # trackedUris ?new else trackedUris ?new"
      have a: "distinct ?T"
        using ih(1,2) by (auto simp: has_snoc)
      have b: "\<forall>v\<in>set ?T. \<not> has s v"
        using ih(2) False by (auto simp: has_snoc)
      have c: "\<forall>v. has (snd (appendUnique cs (s @ [u]))) v = (has s v \<or> v \<in> set ?T)"
        using ih(3) by (auto simp: has_snoc)
      show ?thesis
        unfolding eq fst_conv snd_conv tu using a b c by blast
    qed
  qed
qed

lemma appendUnique_covers:
  "x \<in> set (trackedUris cs) \<Longrightarrow>
     has s x \<or> x \<in> set (trackedUris (fst (appendUnique cs s)))"
proof (induction cs arbitrary: s)
  case Nil
  then show ?case by simp
next
  case (Cons c cs)
  show ?case
  proof (cases "courseUri c")
    case None
    then show ?thesis using Cons.IH [of s] Cons.prems by simp
  next
    case (Some u)
    show ?thesis
    proof (cases "falsy u \<or> has s u")
      case True
      then show ?thesis
        using Some Cons.IH [of s] Cons.prems by (auto simp: tracked_def split: if_splits)
    next
      case False
      then show ?thesis
        using Some Cons.IH [of "s @ [u]"] Cons.prems
        by (auto simp: tracked_def has_snoc split: if_splits)
    qed
  qed
qed


lemma appendUnique_subset: "set (fst (appendUnique cs s)) \<subseteq> set cs"
proof (induction cs arbitrary: s)
  case Nil
  then show ?case by simp
next
  case (Cons c cs)
  show ?case
    using Cons.IH [of s] Cons.IH [of "s @ [the (courseUri c)]"]
    by (auto split: option.split)
qed

lemma indexFile_simps [simp]:
  "indexFile (saveIndex s st) = Some (JArr s)"
  "indexFile (writeProgress a b st) = indexFile st"
  "indexFile (regenerateFinalJson a st) = indexFile st"
  by (simp_all add: saveIndex_def writeProgress_def regenerateFinalJson_def split: option.split)

lemma has_loadIndex_set: "has (loadIndex (Some (JArr s))) u = has s u"
  by (simp add: has_loadIndex) (simp add: has_def)

text \<open>What a run of the level loop that ends appends, given that the index file and the
  set it starts with find the same uris: courses whose uri is truthy and not found in
  the set, no tracked uri twice; the index file it leaves finds what the set found and
  the tracked uris appended; the count it saves is the count it started with plus the
  number of courses appended.\<close>

lemma processLevel_loop_run:
  "processLevel_loop fuel f from saved0 uriSet st = Some (r, st') \<Longrightarrow>
   \<forall>u. has (loadIndex (indexFile st)) u = has uriSet u \<Longrightarrow>
     \<exists>app. coursesLines st' = coursesLines st @ app \<and>
           (\<forall>c\<in>set app. \<exists>u. courseUri c = Some u \<and> \<not> falsy u \<and> \<not> has uriSet u) \<and>
           distinct (trackedUris app) \<and>
           (\<forall>u. has (loadIndex (indexFile st')) u = (has uriSet u \<or> u \<in> set (trackedUris app))) \<and>
           (r = None \<longrightarrow> (\<exists>lastFrom. progressFile st' = Some (lastFrom, saved0 + length app)))"
proof (induction fuel arbitrary: "from" saved0 uriSet st)
  case 0
  then show ?case by simp
next
  case (Suc fuel)
  note idx = Suc.prems(2)
  obtain pr n where fp: "fetchPageWithRetry f (levelNet st) = (pr, n)"
    by (cases "fetchPageWithRetry f (levelNet st)")
  show ?case
  proof (cases pr)
    case (PageFailed msg)
    then show ?thesis
      using Suc.prems(1) fp by (intro exI [of _ "[]"]) (auto simp: has_loadIndex_set)
  next
    case (PageOk data code)
    show ?thesis
    proof (cases "data = JNull")
      case True
      then show ?thesis
        using Suc.prems(1) fp PageOk idx by (intro exI [of _ "[]"]) auto
    next
      case nn: False
      show ?thesis
      proof (cases "\<exists>courses. getProp (Some data) ''courses'' = Some (JArr courses)")
        case False
        have "processLevel_loop (Suc fuel) f from saved0 uriSet st =
            Some (None, saveIndex uriSet (writeProgress from saved0 (st\<lparr>levelNet := n\<rparr>)))"
          using fp PageOk nn False by (rule processLevel_loop_notarray)
        then show ?thesis
          using Suc.prems(1) by (intro exI [of _ "[]"]) (auto simp: has_loadIndex_set)
      next
        case True
        then obtain courses where cs: "getProp (Some data) ''courses'' = Some (JArr courses)"
          by blast
        show ?thesis
        proof (cases "courses = []")
          case True
          then show ?thesis
            using Suc.prems(1) fp PageOk nn cs
            by (intro exI [of _ "[]"]) (auto simp: has_loadIndex_set)
        next
          case ne: False
          let ?new = "fst (appendUnique courses uriSet)"
          let ?set1 = "snd (appendUnique courses uriSet)"
          let ?st1 = "st\<lparr>levelNet := n,
              coursesFile := Some (coursesLines (st\<lparr>levelNet := n\<rparr>) @ ?new)\<rparr>"
          let ?saved1 = "saved0 + length ?new"
          let ?st2 = "regenerateFinalJson from (writeProgress from ?saved1 (saveIndex ?set1 ?st1))"
          have ap: "appendUniqueCoursesToNdjson courses uriSet (st\<lparr>levelNet := n\<rparr>) =
              (length ?new, ?set1, ?st1)"
            using ne by (simp add: appendUniqueCoursesToNdjson_def)
          have l1: "coursesLines ?st1 = coursesLines st @ ?new"
            by (simp add: coursesLines_def)
          have new: "\<forall>c\<in>set ?new. \<exists>u. courseUri c = Some u \<and> \<not> falsy u \<and> \<not> has uriSet u"
            by (rule appendUnique_new)
          from appendUnique_tracked [of courses uriSet] have tr:
            "distinct (trackedUris ?new)"
            "\<forall>u. has ?set1 u = (has uriSet u \<or> u \<in> set (trackedUris ?new))"
            by blast+
          show ?thesis
          proof (cases "isLastPage data")
            case True
            have "st' = saveIndex ?set1 (writeProgress from ?saved1 (regenerateFinalJson from ?st2))"
              and "r = None"
              using Suc.prems(1) fp PageOk nn cs ne ap True by (auto simp: Let_def)
            then show ?thesis
              using l1 new tr by (intro exI [of _ ?new]) (simp add: has_loadIndex_set)
          next
            case False
            have rec: "processLevel_loop fuel f (from + SIZE) ?saved1 ?set1 ?st2 = Some (r, st')"
              using Suc.prems(1) fp PageOk nn cs ne ap False by (auto simp: Let_def)
            have idx2: "\<forall>u. has (loadIndex (indexFile ?st2)) u = has ?set1 u"
              by (simp add: has_loadIndex_set)
            from Suc.IH [OF rec idx2] obtain app where app:
              "coursesLines st' = coursesLines ?st2 @ app"
              "\<forall>c\<in>set app. \<exists>u. courseUri c = Some u \<and> \<not> falsy u \<and> \<not> has ?set1 u"
              "distinct (trackedUris app)"
              "\<forall>u. has (loadIndex (indexFile st')) u = (has ?set1 u \<or> u \<in> set (trackedUris app))"
              "r = None \<longrightarrow> (\<exists>lastFrom. progressFile st' = Some (lastFrom, ?saved1 + length app))"
              by blast
            have app2: "\<forall>c\<in>set app. \<exists>u. courseUri c = Some u \<and> \<not> falsy u \<and> \<not> has uriSet u"
            proof
              fix c assume "c \<in> set app"
              with app(2) obtain u where u: "courseUri c = Some u" "\<not> falsy u" "\<not> has ?set1 u"
                by blast
              have "\<not> has uriSet u"
                using u(3) tr(2) by blast
              with u show "\<exists>u. courseUri c = Some u \<and> \<not> falsy u \<and> \<not> has uriSet u"
                by blast
            qed
            have disj: "set (trackedUris ?new) \<inter> set (trackedUris app) = {}"
            proof (rule ccontr)
              assume "set (trackedUris ?new) \<inter> set (trackedUris app) \<noteq> {}"
              then obtain u where u: "u \<in> set (trackedUris ?new)" "u \<in> set (trackedUris app)"
                by blast
              from u(2) obtain c where c: "c \<in> set app" "courseUri c = Some u"
                by (auto simp: trackedUris_mem)
              with app(2) have "\<not> has ?set1 u"
                by auto
              with tr(2) u(1) show False
                by blast
            qed
            have d: "distinct (trackedUris (?new @ app))"
              using tr(1) app(3) disj by (simp add: trackedUris_append)
            have i: "\<forall>u. has (loadIndex (indexFile st')) u =
                (has uriSet u \<or> u \<in> set (trackedUris (?new @ app)))"
              using app(4) tr(2) by (auto simp: trackedUris_append)
            have l: "coursesLines st' = coursesLines st @ ?new @ app"
              using app(1) l1 by simp
            have p: "r = None \<longrightarrow>
                (\<exists>lastFrom. progressFile st' = Some (lastFrom, saved0 + length (?new @ app)))"
              using app(5) by (simp add: add.assoc)
            have n2: "\<forall>c\<in>set (?new @ app). \<exists>u. courseUri c = Some u \<and> \<not> falsy u \<and> \<not> has uriSet u"
              using new app2 by auto
            from l n2 d i p show ?thesis
              by (intro exI [of _ "?new @ app"]) blast
          qed
        qed
      qed
    qed
  qed
qed

lemma processLevel_run:
  assumes "processLevel fuel f st = Some (r, st')"
  shows "\<exists>app. coursesLines st' = coursesLines st @ app \<and>
           (\<forall>c\<in>set app. \<exists>u. courseUri c = Some u \<and> \<not> falsy u \<and>
               \<not> has (loadIndex (indexFile st)) u) \<and>
           distinct (trackedUris app) \<and>
           (\<forall>u. has (loadIndex (indexFile st')) u =
                  (has (loadIndex (indexFile st)) u \<or> u \<in> set (trackedUris app))) \<and>
           (r = None \<longrightarrow>
             (\<exists>lastFrom. progressFile st' =
                Some (lastFrom,
                      (case progressFile st of
                         Some (lf, s0) \<Rightarrow> s0
                       | None \<Rightarrow> length (loadIndex (indexFile st))) + length app)))"
proof (cases "progressFile st")
  case None
  then have "processLevel_loop fuel f 0 (length (loadIndex (indexFile st)))
      (loadIndex (indexFile st)) st = Some (r, st')"
    using assms by (simp add: processLevel_def Let_def)
  from processLevel_loop_run [OF this] None show ?thesis
    by simp
next
  case (Some p)
  obtain lf s0 where p: "p = (lf, s0)" by (cases p)
  have "processLevel_loop fuel f (lf + SIZE) s0 (loadIndex (indexFile st)) st = Some (r, st')"
    using assms Some p by (simp add: processLevel_def Let_def)
  from processLevel_loop_run [OF this] Some p show ?thesis
    by simp
qed

text \<open>A run that ends keeps the index covering the output file, and appends no tracked
  uri that the file holds.\<close>

lemma processLevel_covers:
  assumes "processLevel fuel f st = Some (r, st')" and "indexCovers st"
  shows "\<exists>app. coursesLines st' = coursesLines st @ app \<and>
           indexCovers st' \<and>
           distinct (trackedUris app) \<and>
           set (trackedUris app) \<inter> set (trackedUris (coursesLines st)) = {} \<and>
           (distinct (trackedUris (coursesLines st)) \<longrightarrow> distinct (trackedUris (coursesLines st')))"
proof -
  from processLevel_run [OF assms(1)] obtain app where app:
    "coursesLines st' = coursesLines st @ app"
    "\<forall>c\<in>set app. \<exists>u. courseUri c = Some u \<and> \<not> falsy u \<and> \<not> has (loadIndex (indexFile st)) u"
    "distinct (trackedUris app)"
    "\<forall>u. has (loadIndex (indexFile st')) u =
           (has (loadIndex (indexFile st)) u \<or> u \<in> set (trackedUris app))"
    by blast
  have cov: "\<forall>u\<in>set (trackedUris (coursesLines st)). has (loadIndex (indexFile st)) u"
    using assms(2) by (simp add: indexCovers_def list_all_iff)
  have disj: "set (trackedUris app) \<inter> set (trackedUris (coursesLines st)) = {}"
  proof (rule ccontr)
    assume "set (trackedUris app) \<inter> set (trackedUris (coursesLines st)) \<noteq> {}"
    then obtain u where u: "u \<in> set (trackedUris app)" "u \<in> set (trackedUris (coursesLines st))"
      by blast
    from u(1) obtain c where c: "c \<in> set app" "courseUri c = Some u"
      by (auto simp: trackedUris_mem)
    with app(2) have "\<not> has (loadIndex (indexFile st)) u"
      by auto
    with cov u(2) show False
      by blast
  qed
  have cov': "indexCovers st'"
    unfolding indexCovers_def list_all_iff app(1) trackedUris_append
    using cov app(4) by auto
  have "distinct (trackedUris (coursesLines st'))" if "distinct (trackedUris (coursesLines st))"
    unfolding app(1) trackedUris_append using that app(3) disj by auto
  with app(1,3) disj cov' show ?thesis
    by blast
qed

lemma indexCovers_fresh: "coursesFile st = None \<Longrightarrow> indexCovers st"
  by (simp add: indexCovers_def coursesLines_def)

text \<open>The definitions that a run of the level fetcher on concrete files unfolds.\<close>

lemmas level_eval = processLevel_def loadIndex_def newSet_def setAdd_def
      has_def fetchPageWithRetry_def fetchPageWithRetry_loop.simps MAX_RETRIES_levels_def
      tryPage_def replay_def net0_def r200_def coursesPage_def course_def
      appendUniqueCoursesToNdjson_def courseUri_def isLastPage_def Let_def
      regenerateFinalJson_def writeProgress_def saveIndex_def coursesLines_def

section \<open>Deduplication across a warm restart\<close>

text \<open>
  Claim C3, as amended. The level fetcher builds its uri set from the persisted index
  file. A run of processLevel that ends (normally or on an error) appends only courses
  whose uri is truthy and not found in that set, so none whose uri is a primitive value
  listed in the index file, and no tracked uri (truthy and a primitive value) twice.
  The index file covers the output file when every tracked uri of a record of the output
  file is found in the set built from the index file: this holds when there is no output
  file, and a run that ends keeps it, since the index file it leaves finds what the set
  found and the tracked uris it appended. So a run that starts from files which the
  index covers appends no record whose tracked uri is already in the output file, and
  leaves the tracked uris of the output file pairwise different when they were; of two
  runs in a row, the second appends no tracked uri that the output file held or the
  first appended. The detail fetcher fetches a line only when the output file named
  after its identifier does not exist. The bulk fetcher starts every call of
  fetchAllFor with an empty seen set: among the records that one call appends no tracked
  identifier occurs twice, and nothing more.
\<close>

theorem warm_restart_dedup:
  "(coursesFile st = None \<longrightarrow> indexCovers st) \<and>
   (processLevel fuel f st = Some (r, st') \<longrightarrow>
      (\<exists>app. coursesLines st' = coursesLines st @ app \<and>
             (\<forall>c\<in>set app. \<exists>u. courseUri c = Some u \<and> \<not> falsy u \<and>
                 \<not> has (loadIndex (indexFile st)) u) \<and>
             (\<forall>xs. indexFile st = Some (JArr xs) \<longrightarrow>
                (\<forall>c\<in>set app. \<forall>u. courseUri c = Some u \<longrightarrow> primitive u \<longrightarrow> u \<notin> set xs)) \<and>
             distinct (trackedUris app) \<and>
             (\<forall>u. has (loadIndex (indexFile st')) u =
                    (has (loadIndex (indexFile st)) u \<or> u \<in> set (trackedUris app))) \<and>
             (indexCovers st \<longrightarrow>
                indexCovers st' \<and>
                set (trackedUris app) \<inter> set (trackedUris (coursesLines st)) = {} \<and>
                (distinct (trackedUris (coursesLines st)) \<longrightarrow>
                   distinct (trackedUris (coursesLines st')))))) \<and>
   (indexCovers st \<and> processLevel fuel f st = Some (r, st') \<and>
    processLevel fuel2 f2 st' = Some (r2, st2) \<longrightarrow>
      (\<exists>app app2. coursesLines st' = coursesLines st @ app \<and>
         coursesLines st2 = coursesLines st @ app @ app2 \<and>
         set (trackedUris app2) \<inter> set (trackedUris (coursesLines st @ app)) = {})) \<and>
   (lineAction parseIdFromUri existsSync obj = Fetch uri out \<longrightarrow> \<not> existsSync out) \<and>
   (\<exists>app. lines (snd (fetchAllFor env w)) = lines w @ app \<and> distinct (trackedIds app))"
proof -
  have one: "\<exists>app. coursesLines st' = coursesLines st @ app \<and>
             (\<forall>c\<in>set app. \<exists>u. courseUri c = Some u \<and> \<not> falsy u \<and>
                 \<not> has (loadIndex (indexFile st)) u) \<and>
             (\<forall>xs. indexFile st = Some (JArr xs) \<longrightarrow>
                (\<forall>c\<in>set app. \<forall>u. courseUri c = Some u \<longrightarrow> primitive u \<longrightarrow> u \<notin> set xs)) \<and>
             distinct (trackedUris app) \<and>
             (\<forall>u. has (loadIndex (indexFile st')) u =
                    (has (loadIndex (indexFile st)) u \<or> u \<in> set (trackedUris app))) \<and>
             (indexCovers st \<longrightarrow>
                indexCovers st' \<and>
                set (trackedUris app) \<inter> set (trackedUris (coursesLines st)) = {} \<and>
                (distinct (trackedUris (coursesLines st)) \<longrightarrow>
                   distinct (trackedUris (coursesLines st'))))"
    if run: "processLevel fuel f st = Some (r, st')"
  proof -
    from processLevel_run [OF run] obtain app where app:
      "coursesLines st' = coursesLines st @ app"
      "\<forall>c\<in>set app. \<exists>u. courseUri c = Some u \<and> \<not> falsy u \<and> \<not> has (loadIndex (indexFile st)) u"
      "distinct (trackedUris app)"
      "\<forall>u. has (loadIndex (indexFile st')) u =
             (has (loadIndex (indexFile st)) u \<or> u \<in> set (trackedUris app))"
      by blast
    have listed: "\<forall>c\<in>set app. \<forall>u. courseUri c = Some u \<longrightarrow> primitive u \<longrightarrow> u \<notin> set xs"
      if ix: "indexFile st = Some (JArr xs)" for xs
    proof (intro ballI allI impI)
      fix c u assume c: "c \<in> set app" and u: "courseUri c = Some u" "primitive u"
      from app(2) c u(1) have "\<not> has (loadIndex (indexFile st)) u"
        by auto
      then show "u \<notin> set xs"
        using ix u(2) by (simp add: has_loadIndex)
    qed
    have cov: "indexCovers st' \<and>
        set (trackedUris app) \<inter> set (trackedUris (coursesLines st)) = {} \<and>
        (distinct (trackedUris (coursesLines st)) \<longrightarrow> distinct (trackedUris (coursesLines st')))"
      if ic: "indexCovers st"
    proof -
      from processLevel_covers [OF run ic] obtain app' where app':
        "coursesLines st' = coursesLines st @ app'" "indexCovers st'"
        "set (trackedUris app') \<inter> set (trackedUris (coursesLines st)) = {}"
        "distinct (trackedUris (coursesLines st)) \<longrightarrow> distinct (trackedUris (coursesLines st'))"
        by blast
      have "app' = app"
        using app(1) app'(1) by simp
      with app' show ?thesis
        by blast
    qed
    from app listed cov show ?thesis
      by blast
  qed
  have two: "\<exists>app app2. coursesLines st' = coursesLines st @ app \<and>
         coursesLines st2 = coursesLines st @ app @ app2 \<and>
         set (trackedUris app2) \<inter> set (trackedUris (coursesLines st @ app)) = {}"
    if h: "indexCovers st \<and> processLevel fuel f st = Some (r, st') \<and>
           processLevel fuel2 f2 st' = Some (r2, st2)"
  proof -
    from h have ic: "indexCovers st" and run1: "processLevel fuel f st = Some (r, st')"
      and run2: "processLevel fuel2 f2 st' = Some (r2, st2)"
      by blast+
    from processLevel_covers [OF run1 ic] obtain app where app:
      "coursesLines st' = coursesLines st @ app" "indexCovers st'"
      by blast
    from processLevel_covers [OF run2 app(2)] obtain app2 where app2:
      "coursesLines st2 = coursesLines st' @ app2"
      "set (trackedUris app2) \<inter> set (trackedUris (coursesLines st')) = {}"
      by blast
    show ?thesis
      using app(1) app2 by (intro exI [of _ app] exI [of _ app2]) simp
  qed
  have detail: "\<not> existsSync out"
    if "lineAction parseIdFromUri existsSync obj = Fetch uri out"
    using that by (auto simp: lineAction_def split: option.splits if_splits)
  have bulk: "\<exists>app. lines (snd (fetchAllFor env w)) = lines w @ app \<and> distinct (trackedIds app)"
    using fetchAllFor_appended [of env w] by blast
  show ?thesis
    apply (intro conjI impI)
        apply (erule indexCovers_fresh)
       apply (erule one)
      apply (erule two)
     apply (erule detail)
    apply (rule bulk)
    done
qed

lemma sourceRestart_runs:
  "\<exists>st1 st2. processLevel (Suc (Suc 0)) sourceRestart levelFresh = Some (None, st1) \<and>
      processLevel (Suc (Suc 0)) sourceRestart st1 = Some (None, st2) \<and>
      coursesLines st1 = [course ''u1'', course ''u2''] \<and>
      coursesLines st2 = [course ''u1'', course ''u2'', course ''u3'']"
  by (simp add: level_eval levelFresh_def sourceRestart_def)

lemma sourceObj_runs:
  "\<exists>st1 st2. processLevel (Suc (Suc 0)) sourceObj levelFresh = Some (None, st1) \<and>
      processLevel (Suc (Suc 0)) sourceObj st1 = Some (None, st2) \<and>
      indexFile st1 = Some (JArr [JObj [(''id'', JStr ''u1'')]]) \<and>
      coursesLines st1 = [courseObj] \<and>
      coursesLines st2 = [courseObj, courseObj]"
  by (simp add: level_eval levelFresh_def sourceObj_def courseObj_def)

theorem warm_restart_dedup_witness:
  "(\<exists>st1 st2 app app2.
     processLevel (Suc (Suc 0)) sourceRestart levelFresh = Some (None, st1) \<and>
     processLevel (Suc (Suc 0)) sourceRestart st1 = Some (None, st2) \<and>
     indexCovers st1 \<and>
     coursesLines st1 = coursesLines levelFresh @ app \<and>
     coursesLines st2 = coursesLines levelFresh @ app @ app2 \<and>
     set (trackedUris app2) \<inter> set (trackedUris (coursesLines levelFresh @ app)) = {}) \<and>
   (\<exists>out. lineAction (\<lambda>u. Some ''42'') (\<lambda>p. p = ''7.json'') (Some (course ''u1'')) =
            Fetch (JStr ''u1'') out \<and> out \<noteq> ''7.json'')"
proof -
  from sourceRestart_runs obtain st1 st2 where
    run1: "processLevel (Suc (Suc 0)) sourceRestart levelFresh = Some (None, st1)" and
    run2: "processLevel (Suc (Suc 0)) sourceRestart st1 = Some (None, st2)"
    by blast
  note t = warm_restart_dedup
    [where st = levelFresh and fuel = "Suc (Suc 0)" and f = sourceRestart and r = None
       and st' = st1 and ?fuel2.0 = "Suc (Suc 0)" and ?f2.0 = sourceRestart and ?r2.0 = None
       and ?st2.0 = st2 and parseIdFromUri = "\<lambda>u. Some ''42''"
       and existsSync = "\<lambda>p. p = ''7.json''"
       and obj = "Some (course ''u1'')" and uri = "JStr ''u1''" and out = "''42.json''"
       and env = envDown and w = world0]
  have ic: "indexCovers levelFresh"
    using t [THEN conjunct1] by (simp add: levelFresh_def)
  have cov: "indexCovers st1"
    using t [THEN conjunct2, THEN conjunct1] run1 ic by blast
  have two: "\<exists>app app2. coursesLines st1 = coursesLines levelFresh @ app \<and>
      coursesLines st2 = coursesLines levelFresh @ app @ app2 \<and>
      set (trackedUris app2) \<inter> set (trackedUris (coursesLines levelFresh @ app)) = {}"
    using t [THEN conjunct2, THEN conjunct2, THEN conjunct1] run1 run2 ic by blast
  have la: "lineAction (\<lambda>u. Some ''42'') (\<lambda>p. p = ''7.json'') (Some (course ''u1'')) =
      Fetch (JStr ''u1'') ''42.json''"
    by (simp add: lineAction_def course_def)
  have "''42.json'' \<noteq> ''7.json''"
    using t [THEN conjunct2, THEN conjunct2, THEN conjunct2, THEN conjunct1] la by blast
  with la have detail: "\<exists>out. lineAction (\<lambda>u. Some ''42'') (\<lambda>p. p = ''7.json'')
      (Some (course ''u1'')) = Fetch (JStr ''u1'') out \<and> out \<noteq> ''7.json''"
    by blast
  from run1 run2 cov two have level: "\<exists>st1 st2 app app2.
     processLevel (Suc (Suc 0)) sourceRestart levelFresh = Some (None, st1) \<and>
     processLevel (Suc (Suc 0)) sourceRestart st1 = Some (None, st2) \<and>
     indexCovers st1 \<and>
     coursesLines st1 = coursesLines levelFresh @ app \<and>
     coursesLines st2 = coursesLines levelFresh @ app @ app2 \<and>
     set (trackedUris app2) \<inter> set (trackedUris (coursesLines levelFresh @ app)) = {}"
    by blast
  from level detail show ?thesis
    by (rule conjI)
qed


lemma fetchLoop_nonjson:
  assumes "totalPages (entry w) < MAX_PAGES_PER_LEVEL"
    and "tryFetch (fetch env (served (network w))) = Inr res"
    and "parsed res = None"
  shows "fetchLoop env from seen w =
           (None, w\<lparr>network := (network w)\<lparr>served := Suc (served (network w))\<rparr>\<rparr>)"
  using assms
  by (subst fetchLoop.simps) (simp add: fetchWithRetry_first_ok)

lemma fetchLoop_accept_fresh:
  assumes "totalPages (entry w) < MAX_PAGES_PER_LEVEL"
    and "tryFetch (fetch env (served (network w))) = Inr res"
    and "parsed res = Some j" and "extractItems j = items" and "items \<noteq> []"
    and "distinct (map getItemId items)" and "\<forall>it\<in>set items. getItemId it \<notin> set seen"
  shows "fetchLoop env from seen w =
           fetchLoop env (from + PAGE_SIZE) (seen @ filter (\<lambda>v. \<not> falsy v) (map getItemId items))
             (persist (w\<lparr>network := (network w)\<lparr>served := Suc (served (network w))\<rparr>,
                         ndjson := appendNdjson (ndjson w) items,
                         entry := markUpdated (entry w) (from + PAGE_SIZE) (length items)
                                    (now env (clockReads w)),
                         clockReads := Suc (clockReads w)\<rparr>))"
  using fetchLoop_accept [OF assms(1,2,3), of "from" seen] assms(4,5)
    acceptPage_fresh [OF assms(6,7), of env "from"
      "w\<lparr>network := (network w)\<lparr>served := Suc (served (network w))\<rparr>\<rparr>"]
  by simp

text \<open>The bulk fetcher with cursor drift: the first run appends items 1 to 10 and stops
  at a body that is not JSON; the warm restart resumes at offset 10, is served a page
  that holds item 10 again, and appends it a second time.\<close>

lemma drift_reappends:
  "count_list (map getItemId (lines (snd (fetchAllFor envDrift world0)))) (JNum 10) = 1 \<and>
   count_list (map getItemId
     (lines (snd (fetchAllFor envDrift (snd (fetchAllFor envDrift world0)))))) (JNum 10) = 2"
proof -
  let ?p1 = "map item [1, 2, 3, 4, 5, 6, 7, 8, 9, 10]"
  let ?p2 = "map item [10, 11]"
  define w1 where "w1 = persist (world0\<lparr>network := (network world0)\<lparr>served := Suc (served (network world0))\<rparr>,
                         ndjson := appendNdjson (ndjson world0) ?p1,
                         entry := markUpdated (entry world0) (0 + PAGE_SIZE) (length ?p1)
                                    (now envDrift (clockReads world0)),
                         clockReads := Suc (clockReads world0)\<rparr>)"
  define w2 where "w2 = w1\<lparr>network := (network w1)\<lparr>served := Suc (served (network w1))\<rparr>\<rparr>"
  define w3 where "w3 = persist (w2\<lparr>network := (network w2)\<lparr>served := Suc (served (network w2))\<rparr>,
                         ndjson := appendNdjson (ndjson w2) ?p2,
                         entry := markUpdated (entry w2) (10 + PAGE_SIZE) (length ?p2)
                                    (now envDrift (clockReads w2)),
                         clockReads := Suc (clockReads w2)\<rparr>)"
  define w4 where "w4 = complete envDrift (w3\<lparr>network := (network w3)\<lparr>served := Suc (served (network w3))\<rparr>\<rparr>)"
  have f0: "from' (entry world0) = 0" "\<not> completed (entry world0)"
    "totalPages (entry world0) < MAX_PAGES_PER_LEVEL" "served (network world0) = 0"
    by (simp_all add: world0_def getMeta_def MAX_PAGES_PER_LEVEL_def net0_def)
  have r0: "tryFetch (fetch envDrift 0) = Inr (r200 (page [1, 2, 3, 4, 5, 6, 7, 8, 9, 10]))"
    and r1: "tryFetch (fetch envDrift (Suc 0)) = Inr rNonJson"
    and r2: "tryFetch (fetch envDrift (Suc (Suc 0))) = Inr (r200 (page [10, 11]))"
    and r3: "tryFetch (fetch envDrift (Suc (Suc (Suc 0)))) = Inr (r200 (page []))"
    by (simp_all add: envDrift_def replay_def tryFetch_def ok_def r200_def rNonJson_def)
  have "alignWithFile (restartIfMissing (from' (entry world0), world0)) = (0, world0)"
    unfolding resume_cases using f0(1) by simp
  then have start1: "fetchAllFor envDrift world0 = fetchLoop envDrift 0 [] world0"
    using f0(2) by (simp add: fetchAllFor_def)
  have step1: "fetchLoop envDrift 0 [] world0 =
      fetchLoop envDrift (0 + PAGE_SIZE) ([] @ filter (\<lambda>v. \<not> falsy v) (map getItemId ?p1)) w1"
    unfolding w1_def
    by (rule fetchLoop_accept_fresh [where res = "r200 (page [1, 2, 3, 4, 5, 6, 7, 8, 9, 10])"
          and j = "page [1, 2, 3, 4, 5, 6, 7, 8, 9, 10]"])
       (simp_all add: f0 r0 r200_def extractItems_page getItemId_item comp_def)
  have f1: "totalPages (entry w1) = 1" "served (network w1) = Suc 0"
    "from' (entry w1) = 10" "\<not> completed (entry w1)" "lines w1 = ?p1"
    by (simp_all add: w1_def world0_def getMeta_def persist_def markUpdated_def net0_def
        MAX_PAGES_PER_LEVEL_def PAGE_SIZE_def lines_def appendNdjson_def)
  have step2: "fetchLoop envDrift (0 + PAGE_SIZE) ([] @ filter (\<lambda>v. \<not> falsy v) (map getItemId ?p1)) w1
      = (None, w2)"
    unfolding w2_def
    by (rule fetchLoop_nonjson [where res = rNonJson])
       (simp_all add: f1 r1 rNonJson_def MAX_PAGES_PER_LEVEL_def)
  have run1: "fetchAllFor envDrift world0 = (None, w2)"
    by (simp only: start1 step1 step2)
  have f2: "totalPages (entry w2) = 1" "served (network w2) = Suc (Suc 0)"
    "from' (entry w2) = 10" "\<not> completed (entry w2)" "lines w2 = ?p1"
    "inferFromFromFile (ndjson w2) = 10"
    using f1 by (simp_all add: w2_def lines_def)
      (simp add: w1_def inferFromFromFile_def persist_def appendNdjson_def PAGE_SIZE_def)
  have "alignWithFile (restartIfMissing (from' (entry w2), w2)) = (10, w2)"
    unfolding resume_cases using f2(3,6) by simp
  then have start2: "fetchAllFor envDrift w2 = fetchLoop envDrift 10 [] w2"
    using f2(4) by (simp add: fetchAllFor_def)
  have step3: "fetchLoop envDrift 10 [] w2 =
      fetchLoop envDrift (10 + PAGE_SIZE) ([] @ filter (\<lambda>v. \<not> falsy v) (map getItemId ?p2)) w3"
    unfolding w3_def
    by (rule fetchLoop_accept_fresh [where res = "r200 (page [10, 11])" and j = "page [10, 11]"])
       (simp_all add: f2 r2 r200_def extractItems_page getItemId_item comp_def
          MAX_PAGES_PER_LEVEL_def)
  have f3: "totalPages (entry w3) = 2" "served (network w3) = Suc (Suc (Suc 0))"
    "lines w3 = ?p1 @ ?p2"
    using f2 by (simp_all add: w3_def persist_def markUpdated_def lines_def appendNdjson_def
        MAX_PAGES_PER_LEVEL_def split: option.split)
  have step4: "fetchLoop envDrift (10 + PAGE_SIZE) ([] @ filter (\<lambda>v. \<not> falsy v) (map getItemId ?p2)) w3
      = (None, w4)"
    unfolding w4_def
    by (rule fetchLoop_empty [where res = "r200 (page [])" and j = "page []"])
       (simp_all add: f3 r3 r200_def extractItems_page MAX_PAGES_PER_LEVEL_def)
  have run2: "fetchAllFor envDrift w2 = (None, w4)"
    by (simp only: start2 step3 step4)
  have l4: "lines w4 = ?p1 @ ?p2"
    using f3 by (simp add: w4_def complete_def persist_def lines_def)
  show ?thesis
    unfolding run1 snd_conv run2 l4 f2(5)
    by (simp add: getItemId_item comp_def)
qed


lemma noIndex_run:
  "\<exists>st'. processLevel (Suc (Suc (Suc 0))) sourceTwice levelNoIndex = Some (None, st') \<and>
      coursesLines st' = [course ''u1'', course ''u1'', course ''u2'', course ''u3'']"
  by (simp add: level_eval levelNoIndex_def sourceTwice_def)

text \<open>
  Claim C3 as stated fails for the bulk fetcher: after a first run that appended items 1
  to 10, the warm restart is served item 10 again and appends it a second time. It also
  fails in the level fetcher for a uri that is not a primitive value: the first run
  appends a course whose uri is an object and lists that uri in the index file, and the
  second run, served the same course, appends it again. And it fails in the level
  fetcher when the index file does not cover the output file: with an index file that is
  missing or does not parse, loadIndex starts from the empty set and the run appends the
  course u1 that the output file already holds.
\<close>

theorem warm_restart_reappends_counterexample:
  "count_list (map getItemId (lines (snd (fetchAllFor envDrift world0)))) (JNum 10) = 1 \<and>
   count_list (map getItemId
     (lines (snd (fetchAllFor envDrift (snd (fetchAllFor envDrift world0)))))) (JNum 10) = 2 \<and>
   (\<exists>st1 st2. processLevel (Suc (Suc 0)) sourceObj levelFresh = Some (None, st1) \<and>
      processLevel (Suc (Suc 0)) sourceObj st1 = Some (None, st2) \<and>
      indexFile st1 = Some (JArr [JObj [(''id'', JStr ''u1'')]]) \<and>
      coursesLines st1 = [courseObj] \<and>
      coursesLines st2 = [courseObj, courseObj]) \<and>
   coursesLines levelNoIndex = [course ''u1''] \<and>
   (\<exists>st'. processLevel (Suc (Suc (Suc 0))) sourceTwice levelNoIndex = Some (None, st') \<and>
      coursesLines st' = [course ''u1'', course ''u1'', course ''u2'', course ''u3''])"
  using drift_reappends sourceObj_runs noIndex_run
  by (simp add: levelNoIndex_def coursesLines_def)


section \<open>The accepted count of a page\<close>

lemma count_list_distinct:
  "distinct xs \<Longrightarrow> count_list xs x = (if x \<in> set xs then 1 else 0)"
  by (induction xs) auto

lemma two_pages_count:
  assumes "tracked x" and "x \<in> getItemId ` set p1" and "x \<in> getItemId ` set p2"
  shows "count_list (map getItemId
           (fst (dedupFilter p1 seen) @ fst (dedupFilter p2 (snd (dedupFilter p1 seen))))) x =
           (if x \<in> set seen then 0 else 1) \<and>
         x \<notin> getItemId ` set (fst (dedupFilter p2 (snd (dedupFilter p1 seen))))"
proof -
  let ?n1 = "fst (dedupFilter p1 seen)" and ?s1 = "snd (dedupFilter p1 seen)"
  let ?n2 = "fst (dedupFilter p2 ?s1)"
  have nf: "\<not> falsy x"
    using assms(1) by (simp add: tracked_def)
  have in1: "x \<in> set seen \<or> x \<in> getItemId ` set ?n1"
    using dedupFilter_covers [OF assms(1,2), of seen] by blast
  then have "x \<in> set ?s1"
    using nf by (auto simp: dedupFilter_seen [of p1 seen])
  moreover have "set (trackedIds ?n2) \<inter> set ?s1 = {}"
    using dedupFilter_tracked [of p2 ?s1] by blast
  ultimately have "x \<notin> set (trackedIds ?n2)"
    by blast
  then have out2: "x \<notin> getItemId ` set ?n2"
    using assms(1) by (auto simp: trackedIds_def)
  then have c2: "count_list (map getItemId ?n2) x = 0"
    by (simp add: count_list_0_iff)
  have c1: "count_list (map getItemId ?n1) x = (if x \<in> set seen then 0 else 1)"
  proof (cases "x \<in> set seen")
    case True
    have "set (trackedIds ?n1) \<inter> set seen = {}"
      using dedupFilter_tracked [of p1 seen] by blast
    with True have "x \<notin> set (trackedIds ?n1)"
      by blast
    then have "x \<notin> getItemId ` set ?n1"
      using assms(1) by (auto simp: trackedIds_def)
    then show ?thesis
      using True by (simp add: count_list_0_iff)
  next
    case False
    with in1 have "x \<in> getItemId ` set ?n1"
      by blast
    then have "count_list (map getItemId ?n1) x = 1"
      using dedupFilter_tracked [of p1 seen] assms(1) by (intro count_tracked_once) simp_all
    then show ?thesis
      using False by simp
  qed
  show ?thesis
    using c1 c2 out2 by simp
qed

text \<open>One pass of the level loop over a page that holds courses.\<close>

lemma processLevel_loop_page:
  assumes "fetchPageWithRetry f (levelNet st) = (PageOk data code, n)"
    and "getProp (Some data) ''courses'' = Some (JArr courses)" and "courses \<noteq> []"
  shows "\<exists>new set1 st1.
           processLevel_loop (Suc fuel) f start saved0 uriSet st =
             (if isLastPage data
              then Some (None, saveIndex set1 (writeProgress start (saved0 + length new)
                                 (regenerateFinalJson start st1)))
              else processLevel_loop fuel f (start + SIZE) (saved0 + length new) set1 st1) \<and>
           coursesLines st1 = coursesLines st @ new \<and>
           progressFile st1 = Some (start, saved0 + length new) \<and>
           indexFile st1 = Some (JArr set1) \<and>
           levelNet st1 = n \<and>
           new = fst (appendUnique courses uriSet) \<and>
           set1 = snd (appendUnique courses uriSet)"
proof -
  let ?new = "fst (appendUnique courses uriSet)"
  let ?set1 = "snd (appendUnique courses uriSet)"
  let ?st1 = "st\<lparr>levelNet := n,
      coursesFile := Some (coursesLines (st\<lparr>levelNet := n\<rparr>) @ ?new)\<rparr>"
  let ?saved1 = "saved0 + length ?new"
  let ?st2 = "regenerateFinalJson start (writeProgress start ?saved1 (saveIndex ?set1 ?st1))"
  have nn: "data \<noteq> JNull"
    using assms(2) by auto
  have ap: "appendUniqueCoursesToNdjson courses uriSet (st\<lparr>levelNet := n\<rparr>) =
      (length ?new, ?set1, ?st1)"
    using assms(3) by (simp add: appendUniqueCoursesToNdjson_def)
  have "coursesLines ?st1 = coursesLines st @ ?new"
    by (simp add: coursesLines_def)
  then have l1: "coursesLines ?st2 = coursesLines st @ ?new"
    by simp
  have n1: "levelNet ?st2 = n"
    by (simp add: regenerateFinalJson_def writeProgress_def saveIndex_def coursesLines_def
        split: option.split)
  have step: "processLevel_loop (Suc fuel) f start saved0 uriSet st =
      (if isLastPage data
       then Some (None, saveIndex ?set1 (writeProgress start ?saved1
                          (regenerateFinalJson start ?st2)))
       else processLevel_loop fuel f (start + SIZE) ?saved1 ?set1 ?st2)"
    using assms nn ap by (simp add: Let_def)
  show ?thesis
    apply (rule exI [of _ ?new])
    apply (rule exI [of _ ?set1])
    apply (rule exI [of _ ?st2])
    using step l1 n1
    apply simp
    done
qed


lemma count_trackedUris:
  "tracked x \<Longrightarrow> count_list (trackedUris ls) x = length (filter (\<lambda>c. courseUri c = Some x) ls)"
  by (induction ls) (auto split: option.split)

text \<open>Two passes in a row over pages that both hold a course with the tracked uri x.\<close>

lemma processLevel_loop_two_pages:
  assumes p1: "fetchPageWithRetry f (levelNet st) = (PageOk d1 c1, net1)"
    and cs1: "getProp (Some d1) ''courses'' = Some (JArr cs1)" and ne1: "cs1 \<noteq> []"
    and nl: "\<not> isLastPage d1"
    and p2: "fetchPageWithRetry f net1 = (PageOk d2 c2, net2)"
    and cs2: "getProp (Some d2) ''courses'' = Some (JArr cs2)" and ne2: "cs2 \<noteq> []"
    and x: "tracked x" "\<exists>c\<in>set cs1. courseUri c = Some x" "\<exists>c\<in>set cs2. courseUri c = Some x"
  shows "\<exists>n1 n2 set2 st2.
           processLevel_loop (Suc (Suc fuel)) f start saved0 uriSet st =
             (if isLastPage d2
              then Some (None, saveIndex set2
                           (writeProgress (start + SIZE) (saved0 + length n1 + length n2)
                              (regenerateFinalJson (start + SIZE) st2)))
              else processLevel_loop fuel f (start + SIZE + SIZE)
                     (saved0 + length n1 + length n2) set2 st2) \<and>
           coursesLines st2 = coursesLines st @ n1 @ n2 \<and>
           progressFile st2 = Some (start + SIZE, saved0 + length n1 + length n2) \<and>
           length (filter (\<lambda>c. courseUri c = Some x) (n1 @ n2)) = (if has uriSet x then 0 else 1) \<and>
           length (filter (\<lambda>c. courseUri c = Some x) n2) = 0"
proof -
  from processLevel_loop_page [OF p1 cs1 ne1, of "Suc fuel" start saved0 uriSet]
  obtain n1 set1 st1 where one:
    "processLevel_loop (Suc (Suc fuel)) f start saved0 uriSet st =
       processLevel_loop (Suc fuel) f (start + SIZE) (saved0 + length n1) set1 st1"
    "coursesLines st1 = coursesLines st @ n1"
    "levelNet st1 = net1"
    "n1 = fst (appendUnique cs1 uriSet)" "set1 = snd (appendUnique cs1 uriSet)"
    using nl by auto
  have p2': "fetchPageWithRetry f (levelNet st1) = (PageOk d2 c2, net2)"
    using p2 one(3) by simp
  from processLevel_loop_page [OF p2' cs2 ne2, of fuel "start + SIZE" "saved0 + length n1" set1]
  obtain n2 set2 st2 where two:
    "processLevel_loop (Suc fuel) f (start + SIZE) (saved0 + length n1) set1 st1 =
       (if isLastPage d2
        then Some (None, saveIndex set2
                     (writeProgress (start + SIZE) (saved0 + length n1 + length n2)
                        (regenerateFinalJson (start + SIZE) st2)))
        else processLevel_loop fuel f (start + SIZE + SIZE)
               (saved0 + length n1 + length n2) set2 st2)"
    "coursesLines st2 = coursesLines st1 @ n2"
    "progressFile st2 = Some (start + SIZE, saved0 + length n1 + length n2)"
    "n2 = fst (appendUnique cs2 set1)"
    by auto
  have x1: "x \<in> set (trackedUris cs1)" and x2: "x \<in> set (trackedUris cs2)"
    using x by (simp_all add: trackedUris_mem)
  from appendUnique_tracked [of cs1 uriSet] have t1:
    "distinct (trackedUris n1)" "\<forall>u\<in>set (trackedUris n1). \<not> has uriSet u"
    "\<forall>u. has set1 u = (has uriSet u \<or> u \<in> set (trackedUris n1))"
    unfolding one(4,5) by blast+
  from appendUnique_tracked [of cs2 set1] have t2: "\<forall>u\<in>set (trackedUris n2). \<not> has set1 u"
    unfolding two(4) by blast
  have "has uriSet x \<or> x \<in> set (trackedUris n1)"
    unfolding one(4) using x1 by (rule appendUnique_covers)
  then have in1: "x \<in> set (trackedUris n1) \<longleftrightarrow> \<not> has uriSet x" and "has set1 x"
    using t1(2,3) by blast+
  then have out2: "x \<notin> set (trackedUris n2)"
    using t2 by blast
  have c2: "count_list (trackedUris n2) x = 0"
    using out2 by (simp add: count_list_0_iff)
  have c1: "count_list (trackedUris n1) x = (if has uriSet x then 0 else 1)"
    using t1(1) in1 by (simp add: count_list_distinct)
  have c12: "count_list (trackedUris (n1 @ n2)) x = (if has uriSet x then 0 else 1)"
    using c1 c2 by (simp add: trackedUris_append)
  have f12: "length (filter (\<lambda>c. courseUri c = Some x) (n1 @ n2)) = (if has uriSet x then 0 else 1)"
    using c12 unfolding count_trackedUris [OF x(1)] .
  have f2: "length (filter (\<lambda>c. courseUri c = Some x) n2) = 0"
    using c2 unfolding count_trackedUris [OF x(1)] .
  have l: "coursesLines st2 = coursesLines st @ n1 @ n2"
    using one(2) two(2) by simp
  show ?thesis
    apply (rule exI [of _ n1])
    apply (rule exI [of _ n2])
    apply (rule exI [of _ set2])
    apply (rule exI [of _ st2])
    using one(1) two(1,3) l f12 f2
    apply simp
    done
qed

text \<open>
  Claim C6, as amended. What a call of fetchAllFor adds to totalItems is the number of
  records it appends, and among them no tracked identifier (truthy and a primitive
  value) occurs twice. When two consecutive accepted pages of the bulk fetcher both hold
  an item with the tracked identifier x, each page adds to totalItems the number of
  records appended for it, the records appended for the two pages hold x exactly once
  (not at all when x was seen before), and the part of the second page does not hold x.
  In the level fetcher, one pass of the loop over a page that holds courses appends
  courses of that page with pairwise different tracked uris, none of them found in the
  uri set before and all of them found in it afterwards, as is every tracked uri of the
  page; it saves as totalSaved the previous count plus the number of courses appended,
  and goes on with that count. When two consecutive pages both hold a course with the tracked uri
  y, the courses appended for the two pages hold y exactly once (not at all when the uri
  set found y before), the part of the second page does not hold y, and totalSaved grows
  by the number of courses appended. A run of processLevel that ends normally saves as
  totalSaved the count it started with plus the number of records it appended.
\<close>

theorem accepted_count_is_appended_count:
  "(\<exists>app. lines (snd (fetchAllFor env w)) = lines w @ app \<and>
          totalItems (entry (snd (fetchAllFor env w))) = totalItems (entry w) + length app \<and>
          distinct (trackedIds app)) \<and>
   (tracked x \<and> x \<in> getItemId ` set p1 \<and> x \<in> getItemId ` set p2 \<longrightarrow>
      (\<exists>n1 n2.
         lines (snd (snd (acceptPage env p2 (acceptPage env p1 (offset, seen, w))))) =
           lines w @ n1 @ n2 \<and>
         totalItems (entry (snd (snd (acceptPage env p1 (offset, seen, w))))) =
           totalItems (entry w) + length n1 \<and>
         totalItems (entry (snd (snd (acceptPage env p2 (acceptPage env p1 (offset, seen, w)))))) =
           totalItems (entry w) + length n1 + length n2 \<and>
         count_list (map getItemId (n1 @ n2)) x = (if x \<in> set seen then 0 else 1) \<and>
         x \<notin> getItemId ` set n2)) \<and>
   (fetchPageWithRetry f (levelNet st) = (PageOk d1 c1, net1) \<and>
    getProp (Some d1) ''courses'' = Some (JArr cs1) \<and> cs1 \<noteq> [] \<longrightarrow>
      (\<exists>n1 set1 st1.
         processLevel_loop (Suc fuel) f start saved0 uriSet st =
           (if isLastPage d1
            then Some (None, saveIndex set1 (writeProgress start (saved0 + length n1)
                               (regenerateFinalJson start st1)))
            else processLevel_loop fuel f (start + SIZE) (saved0 + length n1) set1 st1) \<and>
         coursesLines st1 = coursesLines st @ n1 \<and>
         progressFile st1 = Some (start, saved0 + length n1) \<and>
         indexFile st1 = Some (JArr set1) \<and>
         set n1 \<subseteq> set cs1 \<and>
         distinct (trackedUris n1) \<and>
         (\<forall>u\<in>set (trackedUris n1). \<not> has uriSet u) \<and>
         (\<forall>u\<in>set (trackedUris cs1). has uriSet u \<or> u \<in> set (trackedUris n1)) \<and>
         (\<forall>u. has set1 u = (has uriSet u \<or> u \<in> set (trackedUris n1))))) \<and>
   (fetchPageWithRetry f (levelNet st) = (PageOk d1 c1, net1) \<and>
    getProp (Some d1) ''courses'' = Some (JArr cs1) \<and> cs1 \<noteq> [] \<and> \<not> isLastPage d1 \<and>
    fetchPageWithRetry f net1 = (PageOk d2 c2, net2) \<and>
    getProp (Some d2) ''courses'' = Some (JArr cs2) \<and> cs2 \<noteq> [] \<and>
    tracked y \<and> (\<exists>c\<in>set cs1. courseUri c = Some y) \<and> (\<exists>c\<in>set cs2. courseUri c = Some y) \<longrightarrow>
      (\<exists>n1 n2 set2 st2.
         processLevel_loop (Suc (Suc fuel)) f start saved0 uriSet st =
           (if isLastPage d2
            then Some (None, saveIndex set2
                         (writeProgress (start + SIZE) (saved0 + length n1 + length n2)
                            (regenerateFinalJson (start + SIZE) st2)))
            else processLevel_loop fuel f (start + SIZE + SIZE)
                   (saved0 + length n1 + length n2) set2 st2) \<and>
         coursesLines st2 = coursesLines st @ n1 @ n2 \<and>
         progressFile st2 = Some (start + SIZE, saved0 + length n1 + length n2) \<and>
         length (filter (\<lambda>c. courseUri c = Some y) (n1 @ n2)) = (if has uriSet y then 0 else 1) \<and>
         length (filter (\<lambda>c. courseUri c = Some y) n2) = 0)) \<and>
   (processLevel k g lv = Some (None, lv') \<longrightarrow>
      (\<exists>app lastFrom.
         coursesLines lv' = coursesLines lv @ app \<and>
         progressFile lv' =
           Some (lastFrom,
                 (case progressFile lv of
                    Some (lf, s0) \<Rightarrow> s0
                  | None \<Rightarrow> length (loadIndex (indexFile lv))) + length app) \<and>
         distinct (trackedUris app)))"
proof -
  have bulk: "\<exists>n1 n2.
         lines (snd (snd (acceptPage env p2 (acceptPage env p1 (offset, seen, w))))) =
           lines w @ n1 @ n2 \<and>
         totalItems (entry (snd (snd (acceptPage env p1 (offset, seen, w))))) =
           totalItems (entry w) + length n1 \<and>
         totalItems (entry (snd (snd (acceptPage env p2 (acceptPage env p1 (offset, seen, w)))))) =
           totalItems (entry w) + length n1 + length n2 \<and>
         count_list (map getItemId (n1 @ n2)) x = (if x \<in> set seen then 0 else 1) \<and>
         x \<notin> getItemId ` set n2"
    if a: "tracked x \<and> x \<in> getItemId ` set p1 \<and> x \<in> getItemId ` set p2"
  proof -
    let ?n1 = "fst (dedupFilter p1 seen)" and ?s1 = "snd (dedupFilter p1 seen)"
    let ?n2 = "fst (dedupFilter p2 ?s1)"
    let ?w1 = "snd (snd (acceptPage env p1 (offset, seen, w)))"
    have st1: "acceptPage env p1 (offset, seen, w) = (offset + PAGE_SIZE, ?s1, ?w1)"
      by (simp add: acceptPage_eq)
    have l1: "lines ?w1 = lines w @ ?n1" "totalItems (entry ?w1) = totalItems (entry w) + length ?n1"
      using acceptPage_lines [of env p1 offset seen w] by simp_all
    have l2: "lines (snd (snd (acceptPage env p2 (offset + PAGE_SIZE, ?s1, ?w1)))) = lines ?w1 @ ?n2"
      "totalItems (entry (snd (snd (acceptPage env p2 (offset + PAGE_SIZE, ?s1, ?w1))))) =
         totalItems (entry ?w1) + length ?n2"
      using acceptPage_lines [of env p2 "offset + PAGE_SIZE" ?s1 ?w1] by simp_all
    have once: "count_list (map getItemId (?n1 @ ?n2)) x = (if x \<in> set seen then 0 else 1) \<and>
        x \<notin> getItemId ` set ?n2"
      using a by (intro two_pages_count) simp_all
    have c1: "lines (snd (snd (acceptPage env p2 (acceptPage env p1 (offset, seen, w))))) =
        lines w @ ?n1 @ ?n2"
      using l1(1) l2(1) unfolding st1 [symmetric] by simp
    have c3: "totalItems (entry (snd (snd (acceptPage env p2 (acceptPage env p1 (offset, seen, w)))))) =
        totalItems (entry w) + length ?n1 + length ?n2"
      using l1(2) l2(2) unfolding st1 [symmetric] by simp
    from c1 l1(2) c3 once show ?thesis
      by blast
  qed
  have page: "\<exists>n1 set1 st1.
         processLevel_loop (Suc fuel) f start saved0 uriSet st =
           (if isLastPage d1
            then Some (None, saveIndex set1 (writeProgress start (saved0 + length n1)
                               (regenerateFinalJson start st1)))
            else processLevel_loop fuel f (start + SIZE) (saved0 + length n1) set1 st1) \<and>
         coursesLines st1 = coursesLines st @ n1 \<and>
         progressFile st1 = Some (start, saved0 + length n1) \<and>
         indexFile st1 = Some (JArr set1) \<and>
         set n1 \<subseteq> set cs1 \<and>
         distinct (trackedUris n1) \<and>
         (\<forall>u\<in>set (trackedUris n1). \<not> has uriSet u) \<and>
         (\<forall>u\<in>set (trackedUris cs1). has uriSet u \<or> u \<in> set (trackedUris n1)) \<and>
         (\<forall>u. has set1 u = (has uriSet u \<or> u \<in> set (trackedUris n1)))"
    if h: "fetchPageWithRetry f (levelNet st) = (PageOk d1 c1, net1) \<and>
           getProp (Some d1) ''courses'' = Some (JArr cs1) \<and> cs1 \<noteq> []"
  proof -
    from h have h1: "fetchPageWithRetry f (levelNet st) = (PageOk d1 c1, net1)"
      and h2: "getProp (Some d1) ''courses'' = Some (JArr cs1)" and h3: "cs1 \<noteq> []"
      by blast+
    from processLevel_loop_page [OF h1 h2 h3, of fuel start saved0 uriSet]
    obtain n1 set1 st1 where one:
      "processLevel_loop (Suc fuel) f start saved0 uriSet st =
         (if isLastPage d1
          then Some (None, saveIndex set1 (writeProgress start (saved0 + length n1)
                             (regenerateFinalJson start st1)))
          else processLevel_loop fuel f (start + SIZE) (saved0 + length n1) set1 st1)"
      "coursesLines st1 = coursesLines st @ n1"
      "progressFile st1 = Some (start, saved0 + length n1)"
      "indexFile st1 = Some (JArr set1)"
      "n1 = fst (appendUnique cs1 uriSet)" "set1 = snd (appendUnique cs1 uriSet)"
      by blast
    from appendUnique_tracked [of cs1 uriSet] have tr:
      "distinct (trackedUris n1)" "\<forall>u\<in>set (trackedUris n1). \<not> has uriSet u"
      "\<forall>u. has set1 u = (has uriSet u \<or> u \<in> set (trackedUris n1))"
      unfolding one(5,6) by blast+
    have sub: "set n1 \<subseteq> set cs1"
      unfolding one(5) by (rule appendUnique_subset)
    have cov: "\<forall>u\<in>set (trackedUris cs1). has uriSet u \<or> u \<in> set (trackedUris n1)"
      unfolding one(5) using appendUnique_covers by blast
    show ?thesis
      apply (rule exI [of _ n1])
      apply (rule exI [of _ set1])
      apply (rule exI [of _ st1])
      apply (intro conjI)
             apply (rule one(1))
            apply (rule one(2))
           apply (rule one(3))
          apply (rule one(4))
         apply (rule sub)
        apply (rule tr(1))
       apply (rule tr(2))
      apply (rule cov)
      apply (rule tr(3))
      done
  qed
  have two: "\<exists>n1 n2 set2 st2.
         processLevel_loop (Suc (Suc fuel)) f start saved0 uriSet st =
           (if isLastPage d2
            then Some (None, saveIndex set2
                         (writeProgress (start + SIZE) (saved0 + length n1 + length n2)
                            (regenerateFinalJson (start + SIZE) st2)))
            else processLevel_loop fuel f (start + SIZE + SIZE)
                   (saved0 + length n1 + length n2) set2 st2) \<and>
         coursesLines st2 = coursesLines st @ n1 @ n2 \<and>
         progressFile st2 = Some (start + SIZE, saved0 + length n1 + length n2) \<and>
         length (filter (\<lambda>c. courseUri c = Some y) (n1 @ n2)) = (if has uriSet y then 0 else 1) \<and>
         length (filter (\<lambda>c. courseUri c = Some y) n2) = 0"
    if h: "fetchPageWithRetry f (levelNet st) = (PageOk d1 c1, net1) \<and>
      getProp (Some d1) ''courses'' = Some (JArr cs1) \<and> cs1 \<noteq> [] \<and> \<not> isLastPage d1 \<and>
      fetchPageWithRetry f net1 = (PageOk d2 c2, net2) \<and>
      getProp (Some d2) ''courses'' = Some (JArr cs2) \<and> cs2 \<noteq> [] \<and>
      tracked y \<and> (\<exists>c\<in>set cs1. courseUri c = Some y) \<and> (\<exists>c\<in>set cs2. courseUri c = Some y)"
  proof -
    from h have h1: "fetchPageWithRetry f (levelNet st) = (PageOk d1 c1, net1)"
      and h2: "getProp (Some d1) ''courses'' = Some (JArr cs1)" and h3: "cs1 \<noteq> []"
      and h4: "\<not> isLastPage d1"
      and h5: "fetchPageWithRetry f net1 = (PageOk d2 c2, net2)"
      and h6: "getProp (Some d2) ''courses'' = Some (JArr cs2)" and h7: "cs2 \<noteq> []"
      and h8: "tracked y" "\<exists>c\<in>set cs1. courseUri c = Some y" "\<exists>c\<in>set cs2. courseUri c = Some y"
      by blast+
    show ?thesis
      by (rule processLevel_loop_two_pages [OF h1 h2 h3 h4 h5 h6 h7 h8])
  qed
  have run: "\<exists>app lastFrom.
         coursesLines lv' = coursesLines lv @ app \<and>
         progressFile lv' =
           Some (lastFrom,
                 (case progressFile lv of
                    Some (lf, s0) \<Rightarrow> s0
                  | None \<Rightarrow> length (loadIndex (indexFile lv))) + length app) \<and>
         distinct (trackedUris app)"
    if h: "processLevel k g lv = Some (None, lv')"
    using processLevel_run [OF h] by blast
  show ?thesis
    apply (intro conjI impI)
        apply (rule fetchAllFor_appended)
       apply (erule bulk)
      apply (erule page)
     apply (erule two)
    apply (erule run)
    done
qed

lemma sourceTwice_run:
  "\<exists>lv'. processLevel (Suc (Suc (Suc 0))) sourceTwice levelFresh = Some (None, lv')"
  by (simp add: level_eval levelFresh_def sourceTwice_def)

theorem accepted_count_is_appended_count_witness:
  "(\<exists>n1 n2.
     lines (snd (snd (acceptPage envDown [item 2, item 3]
                        (acceptPage envDown [item 1, item 2] (0, [], world0))))) =
       lines world0 @ n1 @ n2 \<and>
     totalItems (entry (snd (snd (acceptPage envDown [item 2, item 3]
                        (acceptPage envDown [item 1, item 2] (0, [], world0)))))) =
       totalItems (entry world0) + length n1 + length n2 \<and>
     count_list (map getItemId (n1 @ n2)) (JNum 2) = 1 \<and>
     JNum 2 \<notin> getItemId ` set n2) \<and>
   (\<exists>n1 n2 set2 st2.
     processLevel_loop (Suc (Suc (Suc 0))) sourceTwice 0 0 [] levelFresh =
       processLevel_loop (Suc 0) sourceTwice (0 + SIZE + SIZE) (0 + length n1 + length n2) set2 st2 \<and>
     coursesLines st2 = coursesLines levelFresh @ n1 @ n2 \<and>
     progressFile st2 = Some (0 + SIZE, 0 + length n1 + length n2) \<and>
     length (filter (\<lambda>c. courseUri c = Some (JStr ''u2'')) (n1 @ n2)) = 1 \<and>
     length (filter (\<lambda>c. courseUri c = Some (JStr ''u2'')) n2) = 0) \<and>
   (\<exists>n1 set1 st1.
     processLevel_loop (Suc (Suc 0)) sourceTwice 0 0 [] levelFresh =
       processLevel_loop (Suc 0) sourceTwice (0 + SIZE) (0 + length n1) set1 st1 \<and>
     coursesLines st1 = coursesLines levelFresh @ n1 \<and>
     progressFile st1 = Some (0, 0 + length n1) \<and>
     set n1 \<subseteq> set (map course [''u1'', ''u2'']) \<and>
     distinct (trackedUris n1)) \<and>
   (\<exists>lv' app lastFrom.
     processLevel (Suc (Suc (Suc 0))) sourceTwice levelFresh = Some (None, lv') \<and>
     coursesLines lv' = coursesLines levelFresh @ app \<and>
     progressFile lv' = Some (lastFrom, length app))"
proof -
  from sourceTwice_run obtain lv' where
    run: "processLevel (Suc (Suc (Suc 0))) sourceTwice levelFresh = Some (None, lv')"
    by blast
  let ?net1 = "net0\<lparr>served := Suc 0\<rparr>" and ?net2 = "net0\<lparr>served := Suc (Suc 0)\<rparr>"
  note t = accepted_count_is_appended_count
    [where x = "JNum 2" and ?p1.0 = "[item 1, item 2]" and ?p2.0 = "[item 2, item 3]"
       and seen = "[]" and env = envDown and w = world0 and offset = 0
       and f = sourceTwice and st = levelFresh
       and ?d1.0 = "coursesPage [''u1'', ''u2'']" and ?c1.0 = 200 and ?net1.0 = ?net1
       and ?cs1.0 = "map course [''u1'', ''u2'']"
       and ?d2.0 = "coursesPage [''u2'', ''u3'']" and ?c2.0 = 200 and ?net2.0 = ?net2
       and ?cs2.0 = "map course [''u2'', ''u3'']"
       and y = "JStr ''u2''" and fuel = "Suc 0" and start = 0 and ?saved0.0 = 0 and uriSet = "[]"
       and k = "Suc (Suc (Suc 0))" and g = sourceTwice and lv = levelFresh and lv' = lv']
  have h: "tracked (JNum 2) \<and> JNum 2 \<in> getItemId ` set [item 1, item 2] \<and>
      JNum 2 \<in> getItemId ` set [item 2, item 3]"
    by (simp add: tracked_def getItemId_item)
  have a: "\<exists>n1 n2.
     lines (snd (snd (acceptPage envDown [item 2, item 3]
                        (acceptPage envDown [item 1, item 2] (0, [], world0))))) =
       lines world0 @ n1 @ n2 \<and>
     totalItems (entry (snd (snd (acceptPage envDown [item 2, item 3]
                        (acceptPage envDown [item 1, item 2] (0, [], world0)))))) =
       totalItems (entry world0) + length n1 + length n2 \<and>
     count_list (map getItemId (n1 @ n2)) (JNum 2) = 1 \<and>
     JNum 2 \<notin> getItemId ` set n2"
    using t [THEN conjunct2, THEN conjunct1] h by auto
  have hp: "fetchPageWithRetry sourceTwice (levelNet levelFresh) =
        (PageOk (coursesPage [''u1'', ''u2'']) 200, ?net1)"
    "fetchPageWithRetry sourceTwice ?net1 = (PageOk (coursesPage [''u2'', ''u3'']) 200, ?net2)"
    by (simp_all add: fetchPageWithRetry_def fetchPageWithRetry_loop.simps tryPage_def
        sourceTwice_def replay_def r200_def levelFresh_def net0_def MAX_RETRIES_levels_def)
  have hc: "getProp (Some (coursesPage [''u1'', ''u2''])) ''courses'' =
        Some (JArr (map course [''u1'', ''u2'']))"
    "getProp (Some (coursesPage [''u2'', ''u3''])) ''courses'' =
        Some (JArr (map course [''u2'', ''u3'']))"
    "\<not> isLastPage (coursesPage [''u1'', ''u2''])" "\<not> isLastPage (coursesPage [''u2'', ''u3''])"
    by (simp_all add: coursesPage_def isLastPage_def)
  have hy: "tracked (JStr ''u2'')"
    "\<exists>c\<in>set (map course [''u1'', ''u2'']). courseUri c = Some (JStr ''u2'')"
    "\<exists>c\<in>set (map course [''u2'', ''u3'']). courseUri c = Some (JStr ''u2'')"
    "\<not> has [] (JStr ''u2'')"
    by (simp_all add: tracked_def course_def courseUri_def has_def)
  have b: "\<exists>n1 n2 set2 st2.
     processLevel_loop (Suc (Suc (Suc 0))) sourceTwice 0 0 [] levelFresh =
       processLevel_loop (Suc 0) sourceTwice (0 + SIZE + SIZE) (0 + length n1 + length n2) set2 st2 \<and>
     coursesLines st2 = coursesLines levelFresh @ n1 @ n2 \<and>
     progressFile st2 = Some (0 + SIZE, 0 + length n1 + length n2) \<and>
     length (filter (\<lambda>c. courseUri c = Some (JStr ''u2'')) (n1 @ n2)) = 1 \<and>
     length (filter (\<lambda>c. courseUri c = Some (JStr ''u2'')) n2) = 0"
    using t [THEN conjunct2, THEN conjunct2, THEN conjunct2, THEN conjunct1] hp hc hy
    by (simp del: One_nat_def)
  have p: "\<exists>n1 set1 st1.
     processLevel_loop (Suc (Suc 0)) sourceTwice 0 0 [] levelFresh =
       processLevel_loop (Suc 0) sourceTwice (0 + SIZE) (0 + length n1) set1 st1 \<and>
     coursesLines st1 = coursesLines levelFresh @ n1 \<and>
     progressFile st1 = Some (0, 0 + length n1) \<and>
     set n1 \<subseteq> set (map course [''u1'', ''u2'']) \<and>
     distinct (trackedUris n1)"
  proof -
    have hyp: "fetchPageWithRetry sourceTwice (levelNet levelFresh) =
          (PageOk (coursesPage [''u1'', ''u2'']) 200, ?net1) \<and>
        getProp (Some (coursesPage [''u1'', ''u2''])) ''courses'' =
          Some (JArr (map course [''u1'', ''u2''])) \<and>
        map course [''u1'', ''u2''] \<noteq> []"
      using hp(1) hc(1) by simp
    from t [THEN conjunct2, THEN conjunct2, THEN conjunct1, THEN mp, OF hyp]
    obtain n1 set1 st1 where q:
      "processLevel_loop (Suc (Suc 0)) sourceTwice 0 0 [] levelFresh =
         (if isLastPage (coursesPage [''u1'', ''u2''])
          then Some (None, saveIndex set1 (writeProgress 0 (0 + length n1)
                             (regenerateFinalJson 0 st1)))
          else processLevel_loop (Suc 0) sourceTwice (0 + SIZE) (0 + length n1) set1 st1)"
      "coursesLines st1 = coursesLines levelFresh @ n1"
      "progressFile st1 = Some (0, 0 + length n1)"
      "set n1 \<subseteq> set (map course [''u1'', ''u2''])"
      "distinct (trackedUris n1)"
      by (elim exE conjE) (rule that, assumption+)
    have q1: "processLevel_loop (Suc (Suc 0)) sourceTwice 0 0 [] levelFresh =
        processLevel_loop (Suc 0) sourceTwice (0 + SIZE) (0 + length n1) set1 st1"
      unfolding q(1) using hc(3) by (simp only: if_False)
    show ?thesis
      apply (rule exI [of _ n1])
      apply (rule exI [of _ set1])
      apply (rule exI [of _ st1])
      apply (intro conjI)
          apply (rule q1)
         apply (rule q(2))
        apply (rule q(3))
       apply (rule q(4))
      apply (rule q(5))
      done
  qed
  have c: "\<exists>app lastFrom.
     coursesLines lv' = coursesLines levelFresh @ app \<and>
     progressFile lv' = Some (lastFrom, length app)"
    using t [THEN conjunct2, THEN conjunct2, THEN conjunct2, THEN conjunct2] run
    by (auto simp: levelFresh_def loadIndex_def)
  from c run have c': "\<exists>lv' app lastFrom.
     processLevel (Suc (Suc (Suc 0))) sourceTwice levelFresh = Some (None, lv') \<and>
     coursesLines lv' = coursesLines levelFresh @ app \<and>
     progressFile lv' = Some (lastFrom, length app)"
    by blast
  show ?thesis
    apply (intro conjI)
       apply (rule a)
      apply (rule b)
     apply (rule p)
    apply (rule c')
    done
qed

text \<open>A run of the bulk fetcher whose first two pages both hold the item with identifier
  0: line 302 lets it pass on both pages.\<close>

lemma zero_appended_twice:
  "lines (snd (fetchAllFor envZero world0)) = [item 0, item 1, item 0, item 2] \<and>
   totalItems (entry (snd (fetchAllFor envZero world0))) = 4 \<and>
   count_list (map getItemId (lines (snd (fetchAllFor envZero world0)))) (JNum 0) = 2"
proof -
  let ?p1 = "map item [0, 1]"
  let ?p2 = "map item [0, 2]"
  let ?s1 = "[] @ filter (\<lambda>v. \<not> falsy v) (map getItemId ?p1)"
  let ?s2 = "?s1 @ filter (\<lambda>v. \<not> falsy v) (map getItemId ?p2)"
  define w1 where "w1 = persist (world0\<lparr>network := (network world0)\<lparr>served := Suc (served (network world0))\<rparr>,
                         ndjson := appendNdjson (ndjson world0) ?p1,
                         entry := markUpdated (entry world0) (0 + PAGE_SIZE) (length ?p1)
                                    (now envZero (clockReads world0)),
                         clockReads := Suc (clockReads world0)\<rparr>)"
  define w2 where "w2 = persist (w1\<lparr>network := (network w1)\<lparr>served := Suc (served (network w1))\<rparr>,
                         ndjson := appendNdjson (ndjson w1) ?p2,
                         entry := markUpdated (entry w1) (0 + PAGE_SIZE + PAGE_SIZE) (length ?p2)
                                    (now envZero (clockReads w1)),
                         clockReads := Suc (clockReads w1)\<rparr>)"
  define w3 where "w3 = complete envZero (w2\<lparr>network := (network w2)\<lparr>served := Suc (served (network w2))\<rparr>\<rparr>)"
  have f0: "from' (entry world0) = 0" "\<not> completed (entry world0)"
    "totalPages (entry world0) < MAX_PAGES_PER_LEVEL" "served (network world0) = 0"
    by (simp_all add: world0_def getMeta_def MAX_PAGES_PER_LEVEL_def net0_def)
  have r0: "tryFetch (fetch envZero 0) = Inr (r200 (page [0, 1]))"
    and r1: "tryFetch (fetch envZero (Suc 0)) = Inr (r200 (page [0, 2]))"
    and r2: "tryFetch (fetch envZero (Suc (Suc 0))) = Inr (r200 (page []))"
    by (simp_all add: envZero_def replay_def tryFetch_def ok_def r200_def)
  have "alignWithFile (restartIfMissing (from' (entry world0), world0)) = (0, world0)"
    unfolding resume_cases using f0(1) by simp
  then have start1: "fetchAllFor envZero world0 = fetchLoop envZero 0 [] world0"
    using f0(2) by (simp add: fetchAllFor_def)
  have step1: "fetchLoop envZero 0 [] world0 = fetchLoop envZero (0 + PAGE_SIZE) ?s1 w1"
    unfolding w1_def
    by (rule fetchLoop_accept_fresh [where res = "r200 (page [0, 1])" and j = "page [0, 1]"])
       (simp_all add: f0 r0 r200_def extractItems_page getItemId_item comp_def)
  have f1: "totalPages (entry w1) = 1" "served (network w1) = Suc 0" "lines w1 = ?p1"
    "totalItems (entry w1) = 2"
    by (simp_all add: w1_def world0_def getMeta_def persist_def markUpdated_def net0_def
        lines_def appendNdjson_def)
  have step2: "fetchLoop envZero (0 + PAGE_SIZE) ?s1 w1 =
      fetchLoop envZero (0 + PAGE_SIZE + PAGE_SIZE) ?s2 w2"
    unfolding w2_def
    by (rule fetchLoop_accept_fresh [where res = "r200 (page [0, 2])" and j = "page [0, 2]"])
       (simp_all add: f1 r1 r200_def extractItems_page getItemId_item comp_def
          MAX_PAGES_PER_LEVEL_def)
  have f2: "totalPages (entry w2) = 2" "served (network w2) = Suc (Suc 0)"
    "lines w2 = ?p1 @ ?p2" "totalItems (entry w2) = 4"
    using f1 by (simp_all add: w2_def persist_def markUpdated_def lines_def appendNdjson_def
        split: option.split)
  have step3: "fetchLoop envZero (0 + PAGE_SIZE + PAGE_SIZE) ?s2 w2 = (None, w3)"
    unfolding w3_def
    by (rule fetchLoop_empty [where res = "r200 (page [])" and j = "page []"])
       (simp_all add: f2 r2 r200_def extractItems_page MAX_PAGES_PER_LEVEL_def)
  have run: "fetchAllFor envZero world0 = (None, w3)"
    by (simp only: start1 step1 step2 step3)
  have l3: "lines w3 = ?p1 @ ?p2" "totalItems (entry w3) = 4"
    using f2 by (simp_all add: w3_def complete_def persist_def lines_def markComplete_def)
  show ?thesis
    unfolding run snd_conv l3
    by (simp add: getItemId_item)
qed

text \<open>Two accepted pages of the bulk fetcher that both hold the item whose identifier is
  an object, and a run of the level fetcher whose first two pages both hold the course
  whose uri is an object.\<close>

lemma object_appended_twice:
  "lines (snd (snd (acceptPage envDown [itemObj]
                      (acceptPage envDown [itemObj] (0, [], world0))))) = [itemObj, itemObj] \<and>
   totalItems (entry (snd (snd (acceptPage envDown [itemObj]
                      (acceptPage envDown [itemObj] (0, [], world0)))))) = 2"
  by (simp add: acceptPage_eq itemObj_def getItemId_def has_def persist_def markUpdated_def
      lines_def appendNdjson_def world0_def getMeta_def Let_def)

lemma sourceObjTwice_run:
  "\<exists>lv'. processLevel (Suc (Suc (Suc 0))) sourceObjTwice levelFresh = Some (None, lv') \<and>
      coursesLines lv' = [courseObj, courseObj] \<and>
      progressFile lv' = Some (150, 2)"
  by (simp add: level_eval levelFresh_def sourceObjTwice_def courseObj_def SIZE_def)

text \<open>
  Claim C6 as stated fails for an identifier that is falsy or not a primitive value. In
  the bulk fetcher line 302 lets an item with the identifier 0 pass on both pages, so a
  run whose first two pages both hold the item with identifier 0 appends it twice and
  counts four records; and an item whose identifier is an object is not found in the
  seen set, so two accepted pages that both hold it append it twice and count two
  records. In the level fetcher a run whose first two pages both hold the course whose
  uri is an object appends it twice and saves the count 2.
\<close>

theorem identifier_zero_appended_twice_counterexample:
  "lines (snd (fetchAllFor envZero world0)) = [item 0, item 1, item 0, item 2] \<and>
   totalItems (entry (snd (fetchAllFor envZero world0))) = 4 \<and>
   count_list (map getItemId (lines (snd (fetchAllFor envZero world0)))) (JNum 0) = 2 \<and>
   lines (snd (snd (acceptPage envDown [itemObj]
                      (acceptPage envDown [itemObj] (0, [], world0))))) = [itemObj, itemObj] \<and>
   totalItems (entry (snd (snd (acceptPage envDown [itemObj]
                      (acceptPage envDown [itemObj] (0, [], world0)))))) = 2 \<and>
   (\<exists>lv'. processLevel (Suc (Suc (Suc 0))) sourceObjTwice levelFresh = Some (None, lv') \<and>
      coursesLines lv' = [courseObj, courseObj] \<and>
      progressFile lv' = Some (150, 2))"
  using zero_appended_twice object_appended_twice sourceObjTwice_run by blast

end
